theory Spec2Isabelle
  imports Main "HOL-Library.Word" "HOL-Library.Signed_Division" "HOL-Library.AList"
begin

section \<open>Amounts, coins and errors\<close>

text \<open>
  \<open>ltcutil.Amount\<close> and \<open>chainfee.SatPerKWeight\<close> are Go \<open>int64\<close>: addition and
  subtraction wrap around, comparisons are signed (\<open><s\<close>, \<open>\<le>s\<close>), and \<open>/\<close>
  truncates towards zero.
\<close>

type_synonym Amount = "64 word"
type_synonym SatPerKWeight = "64 word"
type_synonym bytes = "8 word list"

definition quo :: "Amount \<Rightarrow> Amount \<Rightarrow> Amount" where
  "quo a b = word_of_int (sint a sdiv sint b)"

record TxOut =
  Value :: Amount
  PkScript :: bytes

record OutPoint =
  Hash :: bytes
  Index :: "32 word"

text \<open>\<open>Coin\<close> embeds \<open>wire.TxOut\<close> and \<open>wire.OutPoint\<close>.\<close>

record Coin =
  TxOut :: TxOut
  OutPoint :: OutPoint

text \<open>
  The errors of the package. \<open>ErrInsufficientFunds\<close> keeps the two fields of the
  struct in their declared order; the two \<open>fmt.Errorf\<close> errors keep the values that
  are formatted into their message.
\<close>

datatype error =
    ErrInsufficientFunds (amountAvailable: Amount) (amountSelected: Amount)
  | errUnsupportedInput bytes
  | errFeeSanity Amount Amount
  | errOutputBelowDust Amount Amount Amount

text \<open>
  \<open>(*ErrInsufficientFunds).Error\<close>: the format string and the values substituted for
  its two \<open>%v\<close> verbs, in order. The message reads "need \<open>amountAvailable\<close> only have
  \<open>amountSelected\<close> available".
\<close>

definition Error :: "error \<Rightarrow> string \<times> Amount list" where
  "Error e = (''not enough witness outputs to create funding transaction, need %v only have %v  available'',
     [amountAvailable e, amountSelected e])"

definition needed :: "error \<Rightarrow> Amount" where
  "needed e = snd (Error e) ! 0"

definition available :: "error \<Rightarrow> Amount" where
  "available e = snd (Error e) ! 1"

section \<open>Input selection\<close>

definition totalValue :: "Coin list \<Rightarrow> Amount" where
  "totalValue coins = sum_list (map (\<lambda>c. Value (TxOut c)) coins)"

text \<open>
  The \<open>for i, coin := range coins\<close> loop of \<open>selectInputs\<close>: \<open>satSelected\<close> is the
  running total, \<open>i\<close> the index and the last argument the coins still to visit.
\<close>

fun selectLoop :: "Amount \<Rightarrow> Coin list \<Rightarrow> Amount \<Rightarrow> nat \<Rightarrow> Coin list
    \<Rightarrow> error + (Amount \<times> Coin list)" where
  "selectLoop amt coins satSelected i [] = Inl (ErrInsufficientFunds amt satSelected)"
| "selectLoop amt coins satSelected i (coin # rest) =
     (let satSelected' = satSelected + Value (TxOut coin)
      in if amt \<le>s satSelected' then Inr (satSelected', take (i + 1) coins)
         else selectLoop amt coins satSelected' (i + 1) rest)"

definition selectInputs :: "Amount \<Rightarrow> Coin list \<Rightarrow> error + (Amount \<times> Coin list)" where
  "selectInputs amt coins = selectLoop amt coins 0 0 coins"

section \<open>Fee estimation\<close>

text \<open>
  \<open>calculateFees\<close> is written against three imported packages:
  \<open>txscript\<close> (the two script tests), \<open>input.TxWeightEstimator\<close> (the estimator, its
  zero value, four \<open>Add\<close> methods and \<open>Weight\<close>) and \<open>chainfee\<close>
  (\<open>SatPerKWeight.FeeForWeight\<close>). They are parameters of the model, collected in one
  record; \<open>'w\<close> is the type of the estimator's state.
\<close>

record 'w externals =
  IsPayToWitnessPubKeyHash :: "bytes \<Rightarrow> bool"
  IsPayToScriptHash :: "bytes \<Rightarrow> bool"
  newEstimator :: 'w
  AddP2WKHInput :: "'w \<Rightarrow> 'w"
  AddNestedP2WKHInput :: "'w \<Rightarrow> 'w"
  AddP2WSHOutput :: "'w \<Rightarrow> 'w"
  AddP2WKHOutput :: "'w \<Rightarrow> 'w"
  Weight :: "'w \<Rightarrow> 64 word"
  FeeForWeight :: "SatPerKWeight \<Rightarrow> 64 word \<Rightarrow> Amount"

fun addInputs :: "'w externals \<Rightarrow> 'w \<Rightarrow> Coin list \<Rightarrow> error + 'w" where
  "addInputs ext weightEstimate [] = Inr weightEstimate"
| "addInputs ext weightEstimate (utxo # utxos) =
     (if IsPayToWitnessPubKeyHash ext (PkScript (TxOut utxo))
        then addInputs ext (AddP2WKHInput ext weightEstimate) utxos
      else if IsPayToScriptHash ext (PkScript (TxOut utxo))
        then addInputs ext (AddNestedP2WKHInput ext weightEstimate) utxos
      else Inl (errUnsupportedInput (PkScript (TxOut utxo))))"

definition calculateFees :: "'w externals \<Rightarrow> Coin list \<Rightarrow> SatPerKWeight
    \<Rightarrow> error + (Amount \<times> Amount)" where
  "calculateFees ext utxos feeRate =
     (case addInputs ext (newEstimator ext) utxos of
        Inl e \<Rightarrow> Inl e
      | Inr weightEstimate \<Rightarrow>
          (let weightEstimate1 = AddP2WSHOutput ext weightEstimate;
               requiredFeeNoChange = FeeForWeight ext feeRate (Weight ext weightEstimate1);
               weightEstimate2 = AddP2WKHOutput ext weightEstimate1;
               requiredFeeWithChange = FeeForWeight ext feeRate (Weight ext weightEstimate2)
           in Inr (requiredFeeNoChange, requiredFeeWithChange)))"

definition sanityCheckFee :: "Amount \<Rightarrow> Amount \<Rightarrow> error option" where
  "sanityCheckFee totalOut fee =
     (if quo totalOut 5 <s fee then Some (errFeeSanity fee totalOut) else None)"

section \<open>CoinSelect\<close>

text \<open>
  One pass through the body of the \<open>for\<close> loop of \<open>CoinSelect\<close>, with the current
  \<open>amtNeeded\<close>: the pass ends either at \<open>continue\<close>, with the new \<open>amtNeeded\<close>, or at
  one of the \<open>return\<close> statements.
\<close>

datatype pass = Continue Amount | Return "error + (Coin list \<times> Amount)"

definition coinSelectPass :: "'w externals \<Rightarrow> SatPerKWeight \<Rightarrow> Amount \<Rightarrow> Amount
    \<Rightarrow> Coin list \<Rightarrow> Amount \<Rightarrow> pass" where
  "coinSelectPass ext feeRate amt dustLimit coins amtNeeded =
     (case selectInputs amtNeeded coins of
        Inl err \<Rightarrow> Return (Inl err)
      | Inr (totalSat, selectedUtxos) \<Rightarrow>
          (case calculateFees ext selectedUtxos feeRate of
             Inl err \<Rightarrow> Return (Inl err)
           | Inr (requiredFeeNoChange, requiredFeeWithChange) \<Rightarrow>
               (let overShootAmt = totalSat - amt
                in if overShootAmt <s requiredFeeNoChange
                     then Continue (amt + requiredFeeNoChange)
                   else
                     (let changeAmt = (if requiredFeeWithChange <s overShootAmt
                                       then overShootAmt - requiredFeeWithChange else 0);
                          changeAmt = (if changeAmt <s dustLimit then 0 else changeAmt);
                          totalOut = amt + changeAmt
                      in case sanityCheckFee totalOut (totalSat - totalOut) of
                           Some err \<Rightarrow> Return (Inl err)
                         | None \<Rightarrow> Return (Inr (selectedUtxos, changeAmt))))))"

text \<open>
  The loop itself has no bound in the source, so its model may not return: \<open>None\<close>
  is "runs forever".
\<close>

partial_function (option) coinSelectLoop :: "'w externals \<Rightarrow> SatPerKWeight \<Rightarrow> Amount
    \<Rightarrow> Amount \<Rightarrow> Coin list \<Rightarrow> Amount \<Rightarrow> (error + (Coin list \<times> Amount)) option" where
  "coinSelectLoop ext feeRate amt dustLimit coins amtNeeded =
     (case coinSelectPass ext feeRate amt dustLimit coins amtNeeded of
        Continue amtNeeded' \<Rightarrow> coinSelectLoop ext feeRate amt dustLimit coins amtNeeded'
      | Return r \<Rightarrow> Some r)"

declare coinSelectLoop.simps [code]

definition CoinSelect :: "'w externals \<Rightarrow> SatPerKWeight \<Rightarrow> Amount \<Rightarrow> Amount
    \<Rightarrow> Coin list \<Rightarrow> (error + (Coin list \<times> Amount)) option" where
  "CoinSelect ext feeRate amt dustLimit coins =
     coinSelectLoop ext feeRate amt dustLimit coins amt"

text \<open>
  The value of \<open>amtNeeded\<close> after \<open>k\<close> restarts of the loop started at \<open>start\<close>, if
  the loop restarts that often.
\<close>

fun amtNeededAfter :: "nat \<Rightarrow> 'w externals \<Rightarrow> SatPerKWeight \<Rightarrow> Amount \<Rightarrow> Amount
    \<Rightarrow> Coin list \<Rightarrow> Amount \<Rightarrow> Amount option" where
  "amtNeededAfter 0 ext feeRate amt dustLimit coins start = Some start"
| "amtNeededAfter (Suc k) ext feeRate amt dustLimit coins start =
     (case coinSelectPass ext feeRate amt dustLimit coins start of
        Continue amtNeeded' \<Rightarrow> amtNeededAfter k ext feeRate amt dustLimit coins amtNeeded'
      | Return r \<Rightarrow> None)"

section \<open>CoinSelectSubtractFees\<close>

definition CoinSelectSubtractFees :: "'w externals \<Rightarrow> SatPerKWeight \<Rightarrow> Amount \<Rightarrow> Amount
    \<Rightarrow> Coin list \<Rightarrow> error + (Coin list \<times> Amount \<times> Amount)" where
  "CoinSelectSubtractFees ext feeRate amt dustLimit coins =
     (case selectInputs amt coins of
        Inl err \<Rightarrow> Inl err
      | Inr (totalSat, selectedUtxos) \<Rightarrow>
          (case calculateFees ext selectedUtxos feeRate of
             Inl err \<Rightarrow> Inl err
           | Inr (requiredFeeNoChange, requiredFeeWithChange) \<Rightarrow>
               (let outputAmt = totalSat - requiredFeeNoChange
                in if outputAmt <s dustLimit
                     then Inl (errOutputBelowDust outputAmt requiredFeeNoChange dustLimit)
                   else
                     (let newOutput = amt - requiredFeeWithChange;
                          newChange = totalSat - amt;
                          (outputAmt, changeAmt) =
                             (if dustLimit \<le>s newChange \<and> dustLimit \<le>s newOutput
                              then (newOutput, newChange) else (outputAmt, 0));
                          totalOut = outputAmt + changeAmt
                      in case sanityCheckFee totalOut (totalSat - totalOut) of
                           Some err \<Rightarrow> Inl err
                         | None \<Rightarrow> Inr (selectedUtxos, outputAmt, changeAmt)))))"

section \<open>Arithmetic without overflow\<close>



section \<open>An instance of the imported packages\<close>

text \<open>
  Modelled from the spec: the packages \<open>input\<close>, \<open>chainfee\<close> and \<open>txscript\<close> are
  imported by \<open>coin_select.go\<close> and their source is not part of the files under
  verification. The spec describes them as a pure weight estimator over typed inputs
  and outputs (plain witness key-hash and nested witness key-hash inputs, a funding
  output and a witness key-hash change output) and a fee rate that is the cost per
  unit of weight, expressed in sat/kw. The instance below fills these in with the
  usual serialized sizes; it is used only to run the model on concrete inputs, and
  every general theorem holds for all instances.
\<close>

record TxWeightEstimator =
  hasWitness :: bool
  inputCount :: nat
  outputCount :: nat
  inputSize :: nat
  inputWitnessSize :: nat
  outputSize :: nat

definition VarIntSerializeSize :: "nat \<Rightarrow> nat" where
  "VarIntSerializeSize n =
     (if n < 253 then 1 else if n \<le> 65535 then 3 else if n \<le> 4294967295 then 5 else 9)"

definition stdWeight :: "TxWeightEstimator \<Rightarrow> 64 word" where
  "stdWeight twe =
     (let txSizeStripped = 8 + VarIntSerializeSize (inputCount twe) + inputSize twe
                             + VarIntSerializeSize (outputCount twe) + outputSize twe;
          weight = txSizeStripped * 4
      in of_nat (if hasWitness twe then weight + 2 + inputWitnessSize twe else weight))"

definition stdExternals :: "TxWeightEstimator externals" where
  "stdExternals =
     \<lparr> IsPayToWitnessPubKeyHash =
         (\<lambda>script. length script = 22 \<and> script ! 0 = 0 \<and> script ! 1 = 20),
       IsPayToScriptHash =
         (\<lambda>script. length script = 23 \<and> script ! 0 = 169 \<and> script ! 1 = 20
                    \<and> script ! 22 = 135),
       newEstimator = \<lparr> hasWitness = False, inputCount = 0, outputCount = 0,
                        inputSize = 0, inputWitnessSize = 0, outputSize = 0 \<rparr>,
       AddP2WKHInput = (\<lambda>twe. twe \<lparr> inputSize := inputSize twe + 41,
                                    inputWitnessSize := inputWitnessSize twe + 109,
                                    inputCount := inputCount twe + 1,
                                    hasWitness := True \<rparr>),
       AddNestedP2WKHInput = (\<lambda>twe. twe \<lparr> inputSize := inputSize twe + 41 + 23,
                                    inputWitnessSize := inputWitnessSize twe + 109,
                                    inputCount := inputCount twe + 1,
                                    hasWitness := True \<rparr>),
       AddP2WSHOutput = (\<lambda>twe. twe \<lparr> outputSize := outputSize twe + 43,
                                     outputCount := outputCount twe + 1 \<rparr>),
       AddP2WKHOutput = (\<lambda>twe. twe \<lparr> outputSize := outputSize twe + 31,
                                     outputCount := outputCount twe + 1 \<rparr>),
       Weight = stdWeight,
       FeeForWeight = (\<lambda>s wu. quo (s * wu) 1000) \<rparr>"

text \<open>A coin of the given value locked by a pay-to-witness-key-hash script.\<close>

definition p2wkhCoin :: "Amount \<Rightarrow> Coin" where
  "p2wkhCoin v =
     \<lparr> TxOut = \<lparr> Value = v, PkScript = 0 # 20 # replicate 20 0 \<rparr>,
       OutPoint = \<lparr> Hash = replicate 32 0, Index = 0 \<rparr> \<rparr>"

section \<open>The lease manager\<close>

text \<open>
  Modelled from the spec: the lease manager itself (the wallet's \<open>LeaseOutput\<close>,
  \<open>ReleaseOutput\<close> and \<open>ListLeases\<close>) is not among the source files; only the RPC
  declarations of the three operations and of the \<open>UtxoLease\<close> message are. The model
  follows the spec's contract of \<open>Lock\<close>, \<open>Release\<close> and \<open>ListLeases\<close>: the table is
  keyed by outpoint and stores \<open>(leaseID, expiresAt)\<close>; a lease is live at time \<open>now\<close>
  while \<open>now < expiresAt\<close>, and an expired lease is treated as absent. The clock is an
  argument of every operation; time is counted in seconds.
\<close>

type_synonym LeaseID = bytes
type_synonym timestamp = nat

record Lease =
  leaseID :: LeaseID
  outpoint :: OutPoint
  expiresAt :: timestamp

type_synonym LeaseTable = "(OutPoint \<times> (LeaseID \<times> timestamp)) list"

datatype leaseError = LeaseConflict OutPoint LeaseID | NotFound

definition Lock :: "LeaseTable \<Rightarrow> timestamp \<Rightarrow> LeaseID \<Rightarrow> OutPoint \<Rightarrow> nat
    \<Rightarrow> leaseError + (timestamp \<times> LeaseTable)" where
  "Lock tbl now lid op ttl =
     (case map_of tbl op of
        None \<Rightarrow> Inr (now + ttl, AList.update op (lid, now + ttl) tbl)
      | Some (holder, expiry) \<Rightarrow>
          if holder \<noteq> lid \<and> now < expiry then Inl (LeaseConflict op holder)
          else Inr (now + ttl, AList.update op (lid, now + ttl) tbl))"

definition Release :: "LeaseTable \<Rightarrow> timestamp \<Rightarrow> LeaseID \<Rightarrow> OutPoint
    \<Rightarrow> leaseError + LeaseTable" where
  "Release tbl now lid op =
     (case map_of tbl op of
        None \<Rightarrow> Inl NotFound
      | Some (holder, expiry) \<Rightarrow>
          if holder = lid \<and> now < expiry then Inr (AList.delete op tbl) else Inl NotFound)"

definition ListLeases :: "LeaseTable \<Rightarrow> timestamp \<Rightarrow> Lease list" where
  "ListLeases tbl now =
     map (\<lambda>(op, (lid, expiry)). \<lparr> leaseID = lid, outpoint = op, expiresAt = expiry \<rparr>)
       (filter (\<lambda>(op, (lid, expiry)). now < expiry) tbl)"

definition sweep :: "LeaseTable \<Rightarrow> timestamp \<Rightarrow> LeaseTable" where
  "sweep tbl now = filter (\<lambda>(op, (lid, expiry)). now < expiry) tbl"

text \<open>
  The states the manager can reach: any sequence of calls, each at its own clock
  reading, from the empty table. A call that fails leaves the table as it was.
\<close>

datatype leaseCall =
    CallLock LeaseID OutPoint nat
  | CallRelease LeaseID OutPoint
  | CallSweep

fun applyCall :: "LeaseTable \<Rightarrow> timestamp \<times> leaseCall \<Rightarrow> LeaseTable" where
  "applyCall tbl (now, CallLock lid op ttl) =
     (case Lock tbl now lid op ttl of Inl err \<Rightarrow> tbl | Inr (expiry, tbl') \<Rightarrow> tbl')"
| "applyCall tbl (now, CallRelease lid op) =
     (case Release tbl now lid op of Inl err \<Rightarrow> tbl | Inr tbl' \<Rightarrow> tbl')"
| "applyCall tbl (now, CallSweep) = sweep tbl now"

definition tableAfter :: "(timestamp \<times> leaseCall) list \<Rightarrow> LeaseTable" where
  "tableAfter calls = foldl applyCall [] calls"

definition liveLeasesOn :: "LeaseTable \<Rightarrow> timestamp \<Rightarrow> OutPoint \<Rightarrow> Lease list" where
  "liveLeasesOn tbl now op = filter (\<lambda>l. outpoint l = op) (ListLeases tbl now)"


section \<open>Properties of input selection\<close>

lemma totalValue_snoc: "totalValue (pre @ [c]) = totalValue pre + Value (TxOut c)"
  by (simp add: totalValue_def)

lemma selectLoop_inv:
  assumes "coins = pre @ rest" "i = length pre" "satSelected = totalValue pre"
    and "\<forall>j. 0 < j \<and> j \<le> length pre \<longrightarrow> totalValue (take j coins) <s amt"
  shows "case selectLoop amt coins satSelected i rest of
           Inl e \<Rightarrow> e = ErrInsufficientFunds amt (totalValue coins)
                   \<and> (\<forall>j. 0 < j \<and> j \<le> length coins \<longrightarrow> totalValue (take j coins) <s amt)
         | Inr (tot, sel) \<Rightarrow> (\<exists>k. length pre < k \<and> k \<le> length coins \<and> sel = take k coins
                   \<and> tot = totalValue sel \<and> amt \<le>s tot
                   \<and> (\<forall>j. 0 < j \<and> j < k \<longrightarrow> totalValue (take j coins) <s amt))"
  using assms
proof (induction rest arbitrary: pre i satSelected)
  case Nil
  then show ?case by simp
next
  case (Cons c rest)
  let ?pre = "pre @ [c]"
  have tk: "take (Suc (length pre)) coins = ?pre"
    using Cons.prems(1) by simp
  show ?case
  proof (cases "amt \<le>s satSelected + Value (TxOut c)")
    case True
    have "\<forall>j. 0 < j \<and> j < Suc (length pre) \<longrightarrow> totalValue (take j coins) <s amt"
      using Cons.prems(4) by (simp add: less_Suc_eq_le)
    with True tk Cons.prems show ?thesis
      by (auto simp: Let_def totalValue_snoc intro!: exI[of _ "Suc (length pre)"])
  next
    case False
    then have lt: "totalValue ?pre <s amt"
      using Cons.prems(3) by (simp add: totalValue_snoc signed.not_le)
    have inv: "\<forall>j. 0 < j \<and> j \<le> length ?pre \<longrightarrow> totalValue (take j coins) <s amt"
    proof (intro allI impI)
      fix j assume j: "0 < j \<and> j \<le> length ?pre"
      show "totalValue (take j coins) <s amt"
      proof (cases "j = Suc (length pre)")
        case True
        then show ?thesis using lt tk by simp
      next
        case False
        with j have "j \<le> length pre" by simp
        with j Cons.prems(4) show ?thesis by blast
      qed
    qed
    have IH: "case selectLoop amt coins (totalValue ?pre) (length ?pre) rest of
           Inl e \<Rightarrow> e = ErrInsufficientFunds amt (totalValue coins)
                   \<and> (\<forall>j. 0 < j \<and> j \<le> length coins \<longrightarrow> totalValue (take j coins) <s amt)
         | Inr (tot, sel) \<Rightarrow> (\<exists>k. length ?pre < k \<and> k \<le> length coins \<and> sel = take k coins
                   \<and> tot = totalValue sel \<and> amt \<le>s tot
                   \<and> (\<forall>j. 0 < j \<and> j < k \<longrightarrow> totalValue (take j coins) <s amt))"
      by (rule Cons.IH) (use Cons.prems(1) inv in simp_all)
    have step: "selectLoop amt coins satSelected i (c # rest)
                = selectLoop amt coins (totalValue ?pre) (length ?pre) rest"
      using False Cons.prems(2,3) by (simp add: Let_def totalValue_snoc)
    show ?thesis
    proof (cases "selectLoop amt coins (totalValue ?pre) (length ?pre) rest")
      case (Inl e)
      with IH step show ?thesis by simp
    next
      case (Inr p)
      obtain tot sel where p: "p = (tot, sel)" by (cases p)
      from IH Inr p obtain k where k: "length ?pre < k" "k \<le> length coins" "sel = take k coins"
        "tot = totalValue sel" "amt \<le>s tot"
        "\<forall>j. 0 < j \<and> j < k \<longrightarrow> totalValue (take j coins) <s amt"
        by auto
      from k(1) have "length pre < k" by simp
      with k have "\<exists>k. length pre < k \<and> k \<le> length coins \<and> sel = take k coins
                   \<and> tot = totalValue sel \<and> amt \<le>s tot
                   \<and> (\<forall>j. 0 < j \<and> j < k \<longrightarrow> totalValue (take j coins) <s amt)"
        by blast
      then show ?thesis unfolding step Inr p by simp
    qed
  qed
qed

lemma selectInputs_Inr:
  assumes "selectInputs amt coins = Inr (tot, sel)"
  shows "\<exists>k. 0 < k \<and> k \<le> length coins \<and> sel = take k coins \<and> tot = totalValue sel
     \<and> amt \<le>s tot \<and> (\<forall>j. 0 < j \<and> j < k \<longrightarrow> totalValue (take j coins) <s amt)"
  using selectLoop_inv [of coins "[]" coins 0 0 amt] assms
  by (simp add: selectInputs_def totalValue_def)

lemma selectInputs_Inl:
  assumes "selectInputs amt coins = Inl e"
  shows "e = ErrInsufficientFunds amt (totalValue coins)
     \<and> (\<forall>j. 0 < j \<and> j \<le> length coins \<longrightarrow> totalValue (take j coins) <s amt)"
  using selectLoop_inv [of coins "[]" coins 0 0 amt] assms
  by (simp add: selectInputs_def totalValue_def)

lemma selectInputs_exhausted:
  assumes "\<forall>j. 0 < j \<and> j \<le> length coins \<longrightarrow> totalValue (take j coins) <s amt"
  shows "selectInputs amt coins = Inl (ErrInsufficientFunds amt (totalValue coins))"
proof (cases "selectInputs amt coins")
  case (Inl e)
  then show ?thesis using selectInputs_Inl by blast
next
  case (Inr p)
  obtain tot sel where p: "p = (tot, sel)" by (cases p)
  from selectInputs_Inr [OF Inr [unfolded p]] obtain k where
    k: "0 < k" "k \<le> length coins" "sel = take k coins" "tot = totalValue sel" "amt \<le>s tot"
    by blast
  with assms have "tot <s amt" by blast
  with k(5) show ?thesis by (simp add: signed.not_le [symmetric])
qed

section \<open>Properties of one pass and of the loop\<close>

lemma coinSelectPass_unfold:
  assumes "selectInputs amtNeeded coins = Inr (tot, sel)"
    and "calculateFees ext sel feeRate = Inr (fnc, fwc)"
  shows "coinSelectPass ext feeRate amt dustLimit coins amtNeeded =
     (if tot - amt <s fnc then Continue (amt + fnc)
      else (let c = (if fwc <s tot - amt then tot - amt - fwc else 0);
                chg = (if c <s dustLimit then 0 else c)
            in Return (if quo (amt + chg) 5 <s tot - (amt + chg)
                   then Inl (errFeeSanity (tot - (amt + chg)) (amt + chg))
                   else Inr (sel, chg))))"
  unfolding coinSelectPass_def sanityCheckFee_def using assms
  by (simp add: Let_def)

lemma coinSelectPass_select_fail:
  assumes "selectInputs amtNeeded coins = Inl e"
  shows "coinSelectPass ext feeRate amt dustLimit coins amtNeeded = Return (Inl e)"
  unfolding coinSelectPass_def using assms by simp

lemma coinSelectPass_fees_fail:
  assumes "selectInputs amtNeeded coins = Inr (tot, sel)"
    and "calculateFees ext sel feeRate = Inl e"
  shows "coinSelectPass ext feeRate amt dustLimit coins amtNeeded = Return (Inl e)"
  unfolding coinSelectPass_def using assms by simp


lemma coinSelectPass_Return_Inr:
  assumes "coinSelectPass ext feeRate amt dustLimit coins amtNeeded = Return (Inr (sel, chg))"
  shows "\<exists>tot fnc fwc. selectInputs amtNeeded coins = Inr (tot, sel)
           \<and> calculateFees ext sel feeRate = Inr (fnc, fwc)
           \<and> \<not> tot - amt <s fnc
           \<and> chg = (let c = (if fwc <s tot - amt then tot - amt - fwc else 0)
                    in if c <s dustLimit then 0 else c)
           \<and> \<not> quo (amt + chg) 5 <s tot - (amt + chg)"
proof (cases "selectInputs amtNeeded coins")
  case (Inl e)
  have "coinSelectPass ext feeRate amt dustLimit coins amtNeeded = Return (Inl e)"
    by (rule coinSelectPass_select_fail [OF Inl])
  with assms show ?thesis by simp
next
  case (Inr p)
  obtain tot sel' where s: "selectInputs amtNeeded coins = Inr (tot, sel')"
    using Inr by (cases p) simp
  show ?thesis
  proof (cases "calculateFees ext sel' feeRate")
    case (Inl e)
    have "coinSelectPass ext feeRate amt dustLimit coins amtNeeded = Return (Inl e)"
      by (rule coinSelectPass_fees_fail [OF s Inl])
    with assms show ?thesis by simp
  next
    case (Inr q)
    obtain fnc fwc where f: "calculateFees ext sel' feeRate = Inr (fnc, fwc)"
      using Inr by (cases q) simp
    define c where "c = (if fwc <s tot - amt then tot - amt - fwc else 0)"
    define chg' where "chg' = (if c <s dustLimit then 0 else c)"
    have u: "coinSelectPass ext feeRate amt dustLimit coins amtNeeded =
       (if tot - amt <s fnc then Continue (amt + fnc)
        else Return (if quo (amt + chg') 5 <s tot - (amt + chg')
                   then Inl (errFeeSanity (tot - (amt + chg')) (amt + chg'))
                   else Inr (sel', chg')))"
      unfolding coinSelectPass_unfold [OF s f] c_def chg'_def by (simp add: Let_def)
    from assms have "\<not> tot - amt <s fnc \<and> sel = sel' \<and> chg = chg'
        \<and> \<not> quo (amt + chg') 5 <s tot - (amt + chg')"
      unfolding u by (simp split: if_splits)
    with s f show ?thesis unfolding chg'_def c_def by (simp add: Let_def)
  qed
qed

lemma coinSelectLoop_after:
  "amtNeededAfter k ext feeRate amt dustLimit coins start = Some need \<Longrightarrow>
   coinSelectLoop ext feeRate amt dustLimit coins need
     = coinSelectLoop ext feeRate amt dustLimit coins start"
proof (induction k arbitrary: start)
  case 0
  then show ?case by simp
next
  case (Suc k)
  then obtain a where a: "coinSelectPass ext feeRate amt dustLimit coins start = Continue a"
    "amtNeededAfter k ext feeRate amt dustLimit coins a = Some need"
    by (auto split: pass.splits)
  from Suc.IH [OF a(2)] a(1) show ?case
    by (subst (2) coinSelectLoop.simps) simp
qed

lemma coinSelectLoop_Some:
  assumes "coinSelectLoop ext feeRate amt dustLimit coins start = Some r"
  shows "\<exists>k need. amtNeededAfter k ext feeRate amt dustLimit coins start = Some need
           \<and> coinSelectPass ext feeRate amt dustLimit coins need = Return r"
proof (rule coinSelectLoop.raw_induct [where P = "\<lambda>ext feeRate amt dustLimit coins start r.
           \<exists>k need. amtNeededAfter k ext feeRate amt dustLimit coins start = Some need
           \<and> coinSelectPass ext feeRate amt dustLimit coins need = Return r", OF _ assms])
  fix loop :: "'a externals \<Rightarrow> SatPerKWeight \<Rightarrow> Amount \<Rightarrow> Amount \<Rightarrow> Coin list \<Rightarrow> Amount
      \<Rightarrow> (error + (Coin list \<times> Amount)) option"
  fix ext feeRate amt dustLimit coins start r
  assume IH: "\<And>ext feeRate amt dustLimit coins start r.
      loop ext feeRate amt dustLimit coins start = Some r \<Longrightarrow>
      \<exists>k need. amtNeededAfter k ext feeRate amt dustLimit coins start = Some need
           \<and> coinSelectPass ext feeRate amt dustLimit coins need = Return r"
  assume body: "(case coinSelectPass ext feeRate amt dustLimit coins start of
        Continue a \<Rightarrow> loop ext feeRate amt dustLimit coins a
      | Return r \<Rightarrow> Some r) = Some r"
  show "\<exists>k need. amtNeededAfter k ext feeRate amt dustLimit coins start = Some need
           \<and> coinSelectPass ext feeRate amt dustLimit coins need = Return r"
  proof (cases "coinSelectPass ext feeRate amt dustLimit coins start")
    case (Continue a)
    with body have "loop ext feeRate amt dustLimit coins a = Some r" by simp
    from IH [OF this] obtain k need where kn:
      "amtNeededAfter k ext feeRate amt dustLimit coins a = Some need"
      "coinSelectPass ext feeRate amt dustLimit coins need = Return r" by blast
    from kn(1) Continue
    have "amtNeededAfter (Suc k) ext feeRate amt dustLimit coins start = Some need"
      by simp
    with kn(2) show ?thesis by blast
  next
    case (Return r')
    with body have "r' = r" by simp
    with Return have "amtNeededAfter 0 ext feeRate amt dustLimit coins start = Some start
        \<and> coinSelectPass ext feeRate amt dustLimit coins start = Return r" by simp
    then show ?thesis by blast
  qed
qed

lemma coinSelectLoop_Return:
  assumes "amtNeededAfter k ext feeRate amt dustLimit coins start = Some need"
    and "coinSelectPass ext feeRate amt dustLimit coins need = Return r"
  shows "coinSelectLoop ext feeRate amt dustLimit coins start = Some r"
proof -
  have "coinSelectLoop ext feeRate amt dustLimit coins need = Some r"
    using assms(2) by (subst coinSelectLoop.simps) simp
  with coinSelectLoop_after [OF assms(1)] show ?thesis by simp
qed

section \<open>Properties of the two selection functions\<close>

lemma selectInputs_total:
  "selectInputs amt coins = Inr (tot, sel) \<Longrightarrow> tot = totalValue sel"
  using selectInputs_Inr by blast

lemma CoinSelectSubtractFees_unfold:
  assumes "selectInputs amt coins = Inr (tot, sel)"
    and "calculateFees ext sel feeRate = Inr (fnc, fwc)"
  shows "CoinSelectSubtractFees ext feeRate amt dustLimit coins =
     (if tot - fnc <s dustLimit then Inl (errOutputBelowDust (tot - fnc) fnc dustLimit)
      else (let withChange = (dustLimit \<le>s tot - amt \<and> dustLimit \<le>s amt - fwc);
                out = (if withChange then amt - fwc else tot - fnc);
                chg = (if withChange then tot - amt else 0)
            in if quo (out + chg) 5 <s tot - (out + chg)
               then Inl (errFeeSanity (tot - (out + chg)) (out + chg))
               else Inr (sel, out, chg)))"
  unfolding CoinSelectSubtractFees_def sanityCheckFee_def using assms
  by (simp add: Let_def)

lemma CoinSelectSubtractFees_Inr:
  assumes "CoinSelectSubtractFees ext feeRate amt dustLimit coins = Inr (sel, out, chg)"
  shows "\<exists>tot fnc fwc. selectInputs amt coins = Inr (tot, sel)
           \<and> calculateFees ext sel feeRate = Inr (fnc, fwc)
           \<and> \<not> tot - fnc <s dustLimit
           \<and> (if dustLimit \<le>s tot - amt \<and> dustLimit \<le>s amt - fwc
               then out = amt - fwc \<and> chg = tot - amt
               else out = tot - fnc \<and> chg = 0)
           \<and> \<not> quo (out + chg) 5 <s tot - (out + chg)"
proof (cases "selectInputs amt coins")
  case (Inl e)
  then have "CoinSelectSubtractFees ext feeRate amt dustLimit coins = Inl e"
    unfolding CoinSelectSubtractFees_def by simp
  with assms show ?thesis by simp
next
  case (Inr p)
  obtain tot sel' where s: "selectInputs amt coins = Inr (tot, sel')"
    using Inr by (cases p) simp
  show ?thesis
  proof (cases "calculateFees ext sel' feeRate")
    case (Inl e)
    with s have "CoinSelectSubtractFees ext feeRate amt dustLimit coins = Inl e"
      unfolding CoinSelectSubtractFees_def by simp
    with assms show ?thesis by simp
  next
    case (Inr q)
    obtain fnc fwc where f: "calculateFees ext sel' feeRate = Inr (fnc, fwc)"
      using Inr by (cases q) simp
    define w where "w \<longleftrightarrow> dustLimit \<le>s tot - amt \<and> dustLimit \<le>s amt - fwc"
    define out' where "out' = (if w then amt - fwc else tot - fnc)"
    define chg' where "chg' = (if w then tot - amt else 0)"
    have u: "CoinSelectSubtractFees ext feeRate amt dustLimit coins =
       (if tot - fnc <s dustLimit then Inl (errOutputBelowDust (tot - fnc) fnc dustLimit)
        else if quo (out' + chg') 5 <s tot - (out' + chg')
               then Inl (errFeeSanity (tot - (out' + chg')) (out' + chg'))
               else Inr (sel', out', chg'))"
      unfolding CoinSelectSubtractFees_unfold [OF s f] out'_def chg'_def w_def
      by (simp add: Let_def)
    from assms have r: "\<not> tot - fnc <s dustLimit \<and> sel = sel' \<and> out = out' \<and> chg = chg'
        \<and> \<not> quo (out' + chg') 5 <s tot - (out' + chg')"
      unfolding u by (simp split: if_splits)
    have "if dustLimit \<le>s tot - amt \<and> dustLimit \<le>s amt - fwc
               then out' = amt - fwc \<and> chg' = tot - amt
               else out' = tot - fnc \<and> chg' = 0"
      unfolding out'_def chg'_def w_def by simp
    with r s f show ?thesis by blast
  qed
qed

lemma CoinSelect_Inr:
  assumes "CoinSelect ext feeRate amt dustLimit coins = Some (Inr (sel, chg))"
  shows "\<exists>k need fnc fwc.
           amtNeededAfter k ext feeRate amt dustLimit coins amt = Some need
           \<and> coinSelectPass ext feeRate amt dustLimit coins need = Return (Inr (sel, chg))
           \<and> selectInputs need coins = Inr (totalValue sel, sel)
           \<and> calculateFees ext sel feeRate = Inr (fnc, fwc)
           \<and> \<not> totalValue sel - amt <s fnc
           \<and> chg = (let c = (if fwc <s totalValue sel - amt
                              then totalValue sel - amt - fwc else 0)
                    in if c <s dustLimit then 0 else c)
           \<and> \<not> quo (amt + chg) 5 <s totalValue sel - (amt + chg)"
proof -
  from coinSelectLoop_Some [OF assms [unfolded CoinSelect_def]] obtain k need where kn:
    "amtNeededAfter k ext feeRate amt dustLimit coins amt = Some need"
    "coinSelectPass ext feeRate amt dustLimit coins need = Return (Inr (sel, chg))"
    by blast
  from coinSelectPass_Return_Inr [OF kn(2)] obtain tot fnc fwc where p:
    "selectInputs need coins = Inr (tot, sel)"
    "calculateFees ext sel feeRate = Inr (fnc, fwc)"
    "\<not> tot - amt <s fnc"
    "chg = (let c = (if fwc <s tot - amt then tot - amt - fwc else 0)
            in if c <s dustLimit then 0 else c)"
    "\<not> quo (amt + chg) 5 <s tot - (amt + chg)"
    by blast
  have t: "tot = totalValue sel" by (rule selectInputs_total [OF p(1)])
  from kn p show ?thesis unfolding t by blast
qed

section \<open>The fee cap\<close>

lemma sint_quo_5: "sint (quo a 5) = sint a sdiv 5"
proof -
  have r: "- (2 ^ 63) \<le> sint a" "sint a < 2 ^ 63"
    using sint_ge [of a] sint_lt [of a] by simp_all
  have "- (2 ^ 63) \<le> sint a sdiv 5 \<and> sint a sdiv 5 < 2 ^ 63"
    using r by (cases "0 \<le> sint a") (simp_all add: signed_divide_int_def sgn_if, linarith+)
  then have "signed_take_bit 63 (sint a sdiv 5) = sint a sdiv 5"
    by (simp add: signed_take_bit_int_eq_self)
  then show ?thesis
    by (simp add: quo_def sint_sbintrunc')
qed

lemma within_cap:
  assumes "\<not> quo totalOut 5 <s fee"
  shows "fee \<le>s quo totalOut 5"
    and "0 \<le>s totalOut \<Longrightarrow> 5 * sint fee \<le> sint totalOut"
proof -
  show le: "fee \<le>s quo totalOut 5"
    using assms by (simp add: signed.not_less)
  assume "0 \<le>s totalOut"
  then have nn: "0 \<le> sint totalOut" by (simp add: word_sle_eq)
  from le have "sint fee \<le> sint totalOut sdiv 5"
    by (simp add: word_sle_eq sint_quo_5)
  also have "sint totalOut sdiv 5 = sint totalOut div 5"
    using nn by (simp add: signed_divide_int_def sgn_if)
  finally show "5 * sint fee \<le> sint totalOut" by linarith
qed

lemma CoinSelect_fee_sanity:
  assumes k: "amtNeededAfter k ext feeRate amt dustLimit coins amt = Some need"
    and s: "selectInputs need coins = Inr (tot, sel)"
    and f: "calculateFees ext sel feeRate = Inr (fnc, fwc)"
    and r: "\<not> tot - amt <s fnc"
    and c: "chg = (let computed = (if fwc <s tot - amt then tot - amt - fwc else 0)
                   in if computed <s dustLimit then 0 else computed)"
    and x: "quo (amt + chg) 5 <s tot - (amt + chg)"
  shows "CoinSelect ext feeRate amt dustLimit coins
           = Some (Inl (errFeeSanity (tot - (amt + chg)) (amt + chg)))"
proof -
  have "coinSelectPass ext feeRate amt dustLimit coins need
          = Return (Inl (errFeeSanity (tot - (amt + chg)) (amt + chg)))"
    unfolding coinSelectPass_unfold [OF s f] using r x unfolding c by (simp add: Let_def)
  from coinSelectLoop_Return [OF k this] show ?thesis by (simp add: CoinSelect_def)
qed

lemma CoinSelectSubtractFees_fee_sanity:
  assumes s: "selectInputs amt coins = Inr (tot, sel)"
    and f: "calculateFees ext sel feeRate = Inr (fnc, fwc)"
    and d: "\<not> tot - fnc <s dustLimit"
    and o: "(out, chg) = (if dustLimit \<le>s tot - amt \<and> dustLimit \<le>s amt - fwc
                         then (amt - fwc, tot - amt) else (tot - fnc, 0))"
    and x: "quo (out + chg) 5 <s tot - (out + chg)"
  shows "CoinSelectSubtractFees ext feeRate amt dustLimit coins
           = Inl (errFeeSanity (tot - (out + chg)) (out + chg))"
proof (cases "dustLimit \<le>s tot - amt \<and> dustLimit \<le>s amt - fwc")
  case True
  then have w: "(dustLimit \<le>s tot - amt \<and> dustLimit \<le>s amt - fwc) = True" by simp
  from o have "out = amt - fwc" "chg = tot - amt" unfolding w by simp_all
  with d x show ?thesis
    unfolding CoinSelectSubtractFees_unfold [OF s f] w by (simp add: Let_def)
next
  case False
  then have w: "(dustLimit \<le>s tot - amt \<and> dustLimit \<le>s amt - fwc) = False" by simp
  from o have "out = tot - fnc" "chg = 0" unfolding w by simp_all
  with d x show ?thesis
    unfolding CoinSelectSubtractFees_unfold [OF s f] w by (simp add: Let_def)
qed

lemma CoinSelectSubtractFees_select_fail:
  assumes "selectInputs amt coins = Inl e"
  shows "CoinSelectSubtractFees ext feeRate amt dustLimit coins = Inl e"
  unfolding CoinSelectSubtractFees_def using assms by simp

section \<open>Termination of the loop of CoinSelect\<close>









section \<open>Properties of the lease manager\<close>

lemma ListLeases_mem:
  "l \<in> set (ListLeases tbl now) \<longleftrightarrow>
     (outpoint l, (leaseID l, expiresAt l)) \<in> set tbl \<and> now < expiresAt l"
proof
  assume "l \<in> set (ListLeases tbl now)"
  then obtain op lid expiry where
    "(op, (lid, expiry)) \<in> set tbl" "now < expiry"
    "l = \<lparr> leaseID = lid, outpoint = op, expiresAt = expiry \<rparr>"
    unfolding ListLeases_def by auto
  then show "(outpoint l, (leaseID l, expiresAt l)) \<in> set tbl \<and> now < expiresAt l"
    by simp
next
  assume a: "(outpoint l, (leaseID l, expiresAt l)) \<in> set tbl \<and> now < expiresAt l"
  have "l = (\<lambda>(op, (lid, expiry)). \<lparr> leaseID = lid, outpoint = op, expiresAt = expiry \<rparr>)
              (outpoint l, (leaseID l, expiresAt l))"
    by simp
  with a show "l \<in> set (ListLeases tbl now)"
    unfolding ListLeases_def by (metis (no_types, lifting) case_prodI image_eqI
        mem_Collect_eq set_filter set_map)
qed

lemma liveLeasesOn_Cons:
  "liveLeasesOn ((k, (lid, expiry)) # tbl) now op =
     (if now < expiry \<and> k = op
      then \<lparr> leaseID = lid, outpoint = k, expiresAt = expiry \<rparr> # liveLeasesOn tbl now op
      else liveLeasesOn tbl now op)"
  by (simp add: liveLeasesOn_def ListLeases_def)

lemma liveLeasesOn_absent:
  "op \<notin> fst ` set tbl \<Longrightarrow> liveLeasesOn tbl now op = []"
proof (induction tbl)
  case Nil
  then show ?case by (simp add: liveLeasesOn_def ListLeases_def)
next
  case (Cons a tbl)
  obtain k lid expiry where a: "a = (k, (lid, expiry))" by (cases a) auto
  from Cons.prems have "k \<noteq> op" "op \<notin> fst ` set tbl" unfolding a by auto
  with Cons.IH show ?case unfolding a by (simp add: liveLeasesOn_Cons)
qed

lemma liveLeasesOn_append:
  "liveLeasesOn (xs @ ys) now op = liveLeasesOn xs now op @ liveLeasesOn ys now op"
  by (simp add: liveLeasesOn_def ListLeases_def)

lemma liveLeasesOn_at_most_one:
  "distinct (map fst tbl) \<Longrightarrow> length (liveLeasesOn tbl now op) \<le> 1"
proof (induction tbl)
  case Nil
  then show ?case by (simp add: liveLeasesOn_def ListLeases_def)
next
  case (Cons a tbl)
  obtain k lid expiry where a: "a = (k, (lid, expiry))" by (cases a) auto
  show ?case
  proof (cases "k = op")
    case True
    with Cons.prems a have "op \<notin> fst ` set tbl" by simp
    from liveLeasesOn_absent [OF this] show ?thesis
      unfolding a by (simp add: liveLeasesOn_Cons)
  next
    case False
    with Cons show ?thesis unfolding a by (simp add: liveLeasesOn_Cons)
  qed
qed

lemma distinct_Lock:
  assumes "distinct (map fst tbl)" "Lock tbl now lid op ttl = Inr (expiry, tbl')"
  shows "distinct (map fst tbl')"
proof -
  from assms(2) have "tbl' = AList.update op (lid, now + ttl) tbl"
    unfolding Lock_def by (auto split: option.splits if_splits)
  with assms(1) show ?thesis by (simp add: distinct_update)
qed

lemma distinct_applyCall:
  assumes "distinct (map fst tbl)"
  shows "distinct (map fst (applyCall tbl c))"
proof -
  obtain now call where c: "c = (now, call)" by (cases c)
  show ?thesis
  proof (cases call)
    case (CallLock lid op ttl)
    show ?thesis
    proof (cases "Lock tbl now lid op ttl")
      case (Inl e)
      with assms c CallLock show ?thesis by simp
    next
      case (Inr p)
      obtain expiry tbl' where p: "p = (expiry, tbl')" by (cases p)
      from distinct_Lock [OF assms Inr [unfolded p]] c CallLock Inr p show ?thesis by simp
    qed
  next
    case (CallRelease lid op)
    show ?thesis
    proof (cases "Release tbl now lid op")
      case (Inl e)
      with assms c CallRelease show ?thesis by simp
    next
      case (Inr tbl')
      then have "tbl' = AList.delete op tbl"
        unfolding Release_def by (auto split: option.splits if_splits)
      with assms c CallRelease Inr show ?thesis by (simp add: distinct_delete)
    qed
  next
    case CallSweep
    with assms c show ?thesis by (simp add: sweep_def distinct_map_filter)
  qed
qed

lemma distinct_foldl_applyCall:
  "distinct (map fst tbl) \<Longrightarrow> distinct (map fst (foldl applyCall tbl calls))"
  by (induction calls arbitrary: tbl) (simp_all add: distinct_applyCall)

lemma distinct_tableAfter: "distinct (map fst (tableAfter calls))"
  unfolding tableAfter_def by (rule distinct_foldl_applyCall) simp

lemma update_in_place:
  assumes "k \<in> fst ` set al" "distinct (map fst al)"
  shows "\<exists>xs v ys. al = xs @ (k, v) # ys \<and> k \<notin> fst ` set xs \<and> k \<notin> fst ` set ys
           \<and> AList.update k w al = xs @ (k, w) # ys"
  using assms
proof (induction al)
  case Nil
  then show ?case by simp
next
  case (Cons a al)
  obtain k' v' where a: "a = (k', v')" by (cases a)
  show ?case
  proof (cases "k' = k")
    case True
    with Cons.prems(2) a have "k \<notin> fst ` set al" by simp
    with True a have "a # al = [] @ (k, v') # al \<and> k \<notin> fst ` set [] \<and> k \<notin> fst ` set al
        \<and> AList.update k w (a # al) = [] @ (k, w) # al"
      by simp
    then show ?thesis by blast
  next
    case False
    with Cons.prems a have "k \<in> fst ` set al" "distinct (map fst al)" by auto
    from Cons.IH [OF this] obtain xs v ys where i:
      "al = xs @ (k, v) # ys" "k \<notin> fst ` set xs" "k \<notin> fst ` set ys"
      "AList.update k w al = xs @ (k, w) # ys"
      by blast
    with False a have "a # al = (a # xs) @ (k, v) # ys \<and> k \<notin> fst ` set (a # xs)
        \<and> k \<notin> fst ` set ys \<and> AList.update k w (a # al) = (a # xs) @ (k, w) # ys"
      by auto
    then show ?thesis by blast
  qed
qed

lemma Lock_Inr:
  assumes "Lock tbl now lid op ttl = Inr (expiry, tbl')"
  shows "expiry = now + ttl" and "tbl' = AList.update op (lid, now + ttl) tbl"
  using assms unfolding Lock_def by (auto split: option.splits if_splits)

lemma Lock_same_holder:
  assumes "map_of tbl op = Some (lid, expiry)"
  shows "Lock tbl now lid op ttl = Inr (now + ttl, AList.update op (lid, now + ttl) tbl)"
  using assms unfolding Lock_def by simp

lemma length_ListLeases_split:
  "length (ListLeases (xs @ (op, (lid, expiry)) # ys) t)
     = length (ListLeases xs t) + (if t < expiry then 1 else 0) + length (ListLeases ys t)"
  by (simp add: ListLeases_def)

section \<open>The claims\<close>

text \<open>
  C10. In \<open>CoinSelectSubtractFees\<close>, if input selection succeeds (and the fees of the
  selected inputs can be estimated) but the total selected value minus the no-change
  fee is below the dust limit, the call fails with the error "output amount after
  subtracting fees below dust limit" and returns no selection.
\<close>

theorem subtract_fees_output_below_dust:
  assumes "selectInputs amt coins = Inr (totalSat, selectedUtxos)"
    and "calculateFees ext selectedUtxos feeRate = Inr (requiredFeeNoChange, requiredFeeWithChange)"
    and "totalValue selectedUtxos - requiredFeeNoChange <s dustLimit"
  shows "CoinSelectSubtractFees ext feeRate amt dustLimit coins =
           Inl (errOutputBelowDust (totalValue selectedUtxos - requiredFeeNoChange)
                  requiredFeeNoChange dustLimit)"
proof -
  have t: "totalSat = totalValue selectedUtxos" by (rule selectInputs_total [OF assms(1)])
  show ?thesis
    unfolding CoinSelectSubtractFees_unfold [OF assms(1,2)] using assms(3) t by simp
qed

theorem subtract_fees_output_below_dust_witness:
  "selectInputs 500 [p2wkhCoin 1000] = Inr (1000, [p2wkhCoin 1000])
   \<and> calculateFees stdExternals [p2wkhCoin 1000] 253 = Inr (123, 154)
   \<and> totalValue [p2wkhCoin 1000] - 123 <s 2000
   \<and> CoinSelectSubtractFees stdExternals 253 500 2000 [p2wkhCoin 1000] =
        Inl (errOutputBelowDust 877 123 2000)"
proof -
  have h1: "selectInputs 500 [p2wkhCoin 1000] = Inr (1000, [p2wkhCoin 1000])"
    by code_simp
  have h2: "calculateFees stdExternals [p2wkhCoin 1000] 253 = Inr (123, 154)"
    by code_simp
  have h3: "totalValue [p2wkhCoin 1000] - 123 <s 2000"
    by code_simp
  have v: "totalValue [p2wkhCoin 1000] - 123 = 877"
    by code_simp
  from subtract_fees_output_below_dust [OF h1 h2 h3] h1 h2 h3 show ?thesis
    unfolding v by simp
qed

text \<open>
  C6. In either mode, the change amount of a successful selection is 0 or at least the
  dust limit. In \<open>CoinSelect\<close> the returned change is the computed change (the
  overshoot less the with-change fee when the overshoot exceeds that fee, otherwise 0),
  replaced by 0 when it is below the dust limit; the coins returned are the ones
  \<open>selectInputs\<close> selected for the final working target, whether or not the change
  was replaced.
\<close>

theorem change_zero_or_above_dust:
  "(CoinSelect ext feeRate amt dustLimit coins = Some (Inr (sel, chg)) \<longrightarrow>
      (chg = 0 \<or> dustLimit \<le>s chg)
      \<and> (\<exists>k need fnc fwc.
            amtNeededAfter k ext feeRate amt dustLimit coins amt = Some need
            \<and> selectInputs need coins = Inr (totalValue sel, sel)
            \<and> calculateFees ext sel feeRate = Inr (fnc, fwc)
            \<and> chg = (let computed = (if fwc <s totalValue sel - amt
                                      then totalValue sel - amt - fwc else 0)
                     in if computed <s dustLimit then 0 else computed)))
   \<and> (CoinSelectSubtractFees ext feeRate amt dustLimit coins = Inr (sel', out, chg') \<longrightarrow>
      chg' = 0 \<or> dustLimit \<le>s chg')"
proof (intro conjI impI)
  assume a: "CoinSelect ext feeRate amt dustLimit coins = Some (Inr (sel, chg))"
  from CoinSelect_Inr [OF a] obtain k need fnc fwc where p:
    "amtNeededAfter k ext feeRate amt dustLimit coins amt = Some need"
    "selectInputs need coins = Inr (totalValue sel, sel)"
    "calculateFees ext sel feeRate = Inr (fnc, fwc)"
    "chg = (let c = (if fwc <s totalValue sel - amt then totalValue sel - amt - fwc else 0)
            in if c <s dustLimit then 0 else c)"
    by blast
  from p(4) show "chg = 0 \<or> dustLimit \<le>s chg"
    by (simp add: Let_def signed.not_less split: if_splits)
  from p show "\<exists>k need fnc fwc.
            amtNeededAfter k ext feeRate amt dustLimit coins amt = Some need
            \<and> selectInputs need coins = Inr (totalValue sel, sel)
            \<and> calculateFees ext sel feeRate = Inr (fnc, fwc)
            \<and> chg = (let computed = (if fwc <s totalValue sel - amt
                                      then totalValue sel - amt - fwc else 0)
                     in if computed <s dustLimit then 0 else computed)"
    by blast
next
  assume b: "CoinSelectSubtractFees ext feeRate amt dustLimit coins = Inr (sel', out, chg')"
  from CoinSelectSubtractFees_Inr [OF b] obtain tot fnc fwc where
    "if dustLimit \<le>s tot - amt \<and> dustLimit \<le>s amt - fwc
     then out = amt - fwc \<and> chg' = tot - amt else out = tot - fnc \<and> chg' = 0"
    by blast
  then show "chg' = 0 \<or> dustLimit \<le>s chg'"
    by (simp split: if_splits)
qed

theorem change_zero_or_above_dust_witness:
  "CoinSelect stdExternals 253 99800 500 [p2wkhCoin 100000] = Some (Inr ([p2wkhCoin 100000], 0))
   \<and> CoinSelectSubtractFees stdExternals 253 120000 500 [p2wkhCoin 100000, p2wkhCoin 50000]
        = Inr ([p2wkhCoin 100000, p2wkhCoin 50000], 119777, 30000)
   \<and> ((0 :: Amount) = 0 \<or> (500 :: Amount) \<le>s 0)
   \<and> ((30000 :: Amount) = 0 \<or> (500 :: Amount) \<le>s 30000)"
proof -
  have h1: "CoinSelect stdExternals 253 99800 500 [p2wkhCoin 100000]
              = Some (Inr ([p2wkhCoin 100000], 0))"
    by code_simp
  have h2: "CoinSelectSubtractFees stdExternals 253 120000 500 [p2wkhCoin 100000, p2wkhCoin 50000]
              = Inr ([p2wkhCoin 100000, p2wkhCoin 50000], 119777, 30000)"
    by code_simp
  have c1: "(0 :: Amount) = 0 \<or> (500 :: Amount) \<le>s 0"
    by (rule change_zero_or_above_dust [of stdExternals 253 99800 500 "[p2wkhCoin 100000]"
          "[p2wkhCoin 100000]" 0, THEN conjunct1, rule_format, OF h1, THEN conjunct1])
  have c2: "(30000 :: Amount) = 0 \<or> (500 :: Amount) \<le>s 30000"
    by (rule change_zero_or_above_dust [of stdExternals 253 120000 500
          "[p2wkhCoin 100000, p2wkhCoin 50000]" _ _ "[p2wkhCoin 100000, p2wkhCoin 50000]"
          119777 30000, THEN conjunct2, rule_format, OF h2])
  show ?thesis by (intro conjI h1 h2 c1 c2)
qed

text \<open>
  C1, as the code has it. In \<open>CoinSelect\<close>, if the fee implied by the candidate
  result (total selected value less target amount less change amount, at the working
  target the loop has reached) exceeds a fifth of the total output value (target
  amount plus change amount), the call returns the fee sanity error, carrying that fee
  and that output value, and no selection. In \<open>CoinSelectSubtractFees\<close> the check is
  made on the primary output, not on the target: if the total selected value less
  primary output less change exceeds a fifth of primary output plus change, the call
  returns the fee sanity error and no selection. Consequently a successful
  \<open>CoinSelect\<close> pays a fee of at most a fifth of target plus change, and a successful
  \<open>CoinSelectSubtractFees\<close> a fee of at most a fifth of primary output plus change.
  The fifth is Go's integer quotient \<open>totalOut/5\<close>; for a total output value that is
  not negative the bound is \<open>5 * fee \<le> totalOut\<close>.
\<close>

theorem fee_sanity_cap:
  "(CoinSelect ext feeRate amt dustLimit coins = Some (Inr (sel, chg)) \<longrightarrow>
      totalValue sel - (amt + chg) \<le>s quo (amt + chg) 5
      \<and> (0 \<le>s amt + chg \<longrightarrow> 5 * sint (totalValue sel - (amt + chg)) \<le> sint (amt + chg)))
   \<and> (CoinSelectSubtractFees ext feeRate amt dustLimit coins = Inr (sel', out', chg') \<longrightarrow>
      totalValue sel' - (out' + chg') \<le>s quo (out' + chg') 5
      \<and> (0 \<le>s out' + chg' \<longrightarrow> 5 * sint (totalValue sel' - (out' + chg')) \<le> sint (out' + chg')))
   \<and> (amtNeededAfter k ext feeRate amt dustLimit coins amt = Some need
      \<and> selectInputs need coins = Inr (tot, sel1)
      \<and> calculateFees ext sel1 feeRate = Inr (fnc, fwc)
      \<and> \<not> tot - amt <s fnc
      \<and> chg1 = (let computed = (if fwc <s tot - amt then tot - amt - fwc else 0)
                 in if computed <s dustLimit then 0 else computed)
      \<and> quo (amt + chg1) 5 <s tot - (amt + chg1) \<longrightarrow>
      CoinSelect ext feeRate amt dustLimit coins
        = Some (Inl (errFeeSanity (tot - (amt + chg1)) (amt + chg1))))
   \<and> (selectInputs amt coins = Inr (tot2, sel2)
      \<and> calculateFees ext sel2 feeRate = Inr (fnc2, fwc2)
      \<and> \<not> tot2 - fnc2 <s dustLimit
      \<and> (out2, chg2) = (if dustLimit \<le>s tot2 - amt \<and> dustLimit \<le>s amt - fwc2
                         then (amt - fwc2, tot2 - amt) else (tot2 - fnc2, 0))
      \<and> quo (out2 + chg2) 5 <s tot2 - (out2 + chg2) \<longrightarrow>
      CoinSelectSubtractFees ext feeRate amt dustLimit coins
        = Inl (errFeeSanity (tot2 - (out2 + chg2)) (out2 + chg2)))"
proof (intro conjI impI)
  assume a: "CoinSelect ext feeRate amt dustLimit coins = Some (Inr (sel, chg))"
  from CoinSelect_Inr [OF a]
  have n: "\<not> quo (amt + chg) 5 <s totalValue sel - (amt + chg)" by blast
  from within_cap(1) [OF n]
  show "totalValue sel - (amt + chg) \<le>s quo (amt + chg) 5" .
  assume "0 \<le>s amt + chg"
  from within_cap(2) [OF n this]
  show "5 * sint (totalValue sel - (amt + chg)) \<le> sint (amt + chg)" .
next
  assume b: "CoinSelectSubtractFees ext feeRate amt dustLimit coins = Inr (sel', out', chg')"
  from CoinSelectSubtractFees_Inr [OF b] obtain t where
    t: "selectInputs amt coins = Inr (t, sel')"
       "\<not> quo (out' + chg') 5 <s t - (out' + chg')" by blast
  have "t = totalValue sel'" by (rule selectInputs_total [OF t(1)])
  with t(2) have n: "\<not> quo (out' + chg') 5 <s totalValue sel' - (out' + chg')" by simp
  from within_cap(1) [OF n]
  show "totalValue sel' - (out' + chg') \<le>s quo (out' + chg') 5" .
  assume "0 \<le>s out' + chg'"
  from within_cap(2) [OF n this]
  show "5 * sint (totalValue sel' - (out' + chg')) \<le> sint (out' + chg')" .
next
  assume "amtNeededAfter k ext feeRate amt dustLimit coins amt = Some need
      \<and> selectInputs need coins = Inr (tot, sel1)
      \<and> calculateFees ext sel1 feeRate = Inr (fnc, fwc)
      \<and> \<not> tot - amt <s fnc
      \<and> chg1 = (let computed = (if fwc <s tot - amt then tot - amt - fwc else 0)
                 in if computed <s dustLimit then 0 else computed)
      \<and> quo (amt + chg1) 5 <s tot - (amt + chg1)"
  then show "CoinSelect ext feeRate amt dustLimit coins
        = Some (Inl (errFeeSanity (tot - (amt + chg1)) (amt + chg1)))"
    using CoinSelect_fee_sanity by blast
next
  assume "selectInputs amt coins = Inr (tot2, sel2)
      \<and> calculateFees ext sel2 feeRate = Inr (fnc2, fwc2)
      \<and> \<not> tot2 - fnc2 <s dustLimit
      \<and> (out2, chg2) = (if dustLimit \<le>s tot2 - amt \<and> dustLimit \<le>s amt - fwc2
                         then (amt - fwc2, tot2 - amt) else (tot2 - fnc2, 0))
      \<and> quo (out2 + chg2) 5 <s tot2 - (out2 + chg2)"
  then show "CoinSelectSubtractFees ext feeRate amt dustLimit coins
        = Inl (errFeeSanity (tot2 - (out2 + chg2)) (out2 + chg2))"
    using CoinSelectSubtractFees_fee_sanity by blast
qed

theorem fee_sanity_cap_witness:
  "CoinSelect stdExternals 253 120000 500 [p2wkhCoin 100000, p2wkhCoin 50000]
      = Some (Inr ([p2wkhCoin 100000, p2wkhCoin 50000], 29777))
   \<and> totalValue [p2wkhCoin 100000, p2wkhCoin 50000] - (120000 + 29777) \<le>s quo (120000 + 29777) 5
   \<and> (0 :: Amount) \<le>s 120000 + 29777
   \<and> 5 * sint (totalValue [p2wkhCoin 100000, p2wkhCoin 50000] - (120000 + 29777))
        \<le> sint (120000 + 29777 :: Amount)
   \<and> CoinSelectSubtractFees stdExternals 253 120000 500 [p2wkhCoin 100000, p2wkhCoin 50000]
      = Inr ([p2wkhCoin 100000, p2wkhCoin 50000], 119777, 30000)
   \<and> totalValue [p2wkhCoin 100000, p2wkhCoin 50000] - (119777 + 30000) \<le>s quo (119777 + 30000) 5
   \<and> (0 :: Amount) \<le>s 119777 + 30000
   \<and> 5 * sint (totalValue [p2wkhCoin 100000, p2wkhCoin 50000] - (119777 + 30000))
        \<le> sint (119777 + 30000 :: Amount)
   \<and> (amtNeededAfter 0 stdExternals 100000 50000 500 [p2wkhCoin 100000] 50000 = Some 50000
      \<and> selectInputs 50000 [p2wkhCoin 100000] = Inr (100000, [p2wkhCoin 100000])
      \<and> calculateFees stdExternals [p2wkhCoin 100000] 100000 = Inr (48700, 61100)
      \<and> \<not> (100000 :: Amount) - 50000 <s 48700
      \<and> (0 :: Amount) = (let computed = (if (61100 :: Amount) <s 100000 - 50000
                                          then 100000 - 50000 - 61100 else 0)
                            in if computed <s 500 then 0 else computed)
      \<and> quo (50000 + 0) 5 <s 100000 - (50000 + 0))
   \<and> CoinSelect stdExternals 100000 50000 500 [p2wkhCoin 100000]
        = Some (Inl (errFeeSanity (100000 - (50000 + 0)) (50000 + 0)))
   \<and> (selectInputs 50000 [p2wkhCoin 100000] = Inr (100000, [p2wkhCoin 100000])
      \<and> calculateFees stdExternals [p2wkhCoin 100000] 100000 = Inr (48700, 61100)
      \<and> \<not> (100000 :: Amount) - 48700 <s 500
      \<and> (51300 :: Amount, 0 :: Amount)
           = (if (500 :: Amount) \<le>s 100000 - 50000 \<and> (500 :: Amount) \<le>s 50000 - 61100
              then (50000 - 61100, 100000 - 50000) else (100000 - 48700, 0))
      \<and> quo (51300 + 0) 5 <s 100000 - (51300 + 0))
   \<and> CoinSelectSubtractFees stdExternals 100000 50000 500 [p2wkhCoin 100000]
        = Inl (errFeeSanity (100000 - (51300 + 0)) (51300 + 0))"
proof -
  let ?two = "[p2wkhCoin 100000, p2wkhCoin 50000]"
  let ?one = "[p2wkhCoin 100000]"
  have a: "CoinSelect stdExternals 253 120000 500 ?two = Some (Inr (?two, 29777))"
    by code_simp
  have a0: "(0 :: Amount) \<le>s 120000 + 29777" by code_simp
  note ta = fee_sanity_cap [where ext = stdExternals and feeRate = 253 and amt = 120000
      and dustLimit = 500 and coins = ?two and sel = ?two and chg = 29777,
      THEN conjunct1, rule_format, OF a]
  have b: "CoinSelectSubtractFees stdExternals 253 120000 500 ?two = Inr (?two, 119777, 30000)"
    by code_simp
  have b0: "(0 :: Amount) \<le>s 119777 + 30000" by code_simp
  note tb = fee_sanity_cap [where ext = stdExternals and feeRate = 253 and amt = 120000
      and dustLimit = 500 and coins = ?two and sel' = ?two and out' = 119777 and chg' = 30000,
      THEN conjunct2, THEN conjunct1, rule_format, OF b]
  have c: "amtNeededAfter 0 stdExternals 100000 50000 500 ?one 50000 = Some 50000
      \<and> selectInputs 50000 ?one = Inr (100000, ?one)
      \<and> calculateFees stdExternals ?one 100000 = Inr (48700, 61100)
      \<and> \<not> (100000 :: Amount) - 50000 <s 48700
      \<and> (0 :: Amount) = (let computed = (if (61100 :: Amount) <s 100000 - 50000
                                          then 100000 - 50000 - 61100 else 0)
                            in if computed <s 500 then 0 else computed)
      \<and> quo (50000 + 0) 5 <s 100000 - (50000 + 0)"
    by code_simp
  note tc = fee_sanity_cap [where ext = stdExternals and feeRate = 100000 and amt = 50000
      and dustLimit = 500 and coins = ?one and k = 0 and need = 50000 and tot = 100000
      and ?sel1.0 = ?one and fnc = 48700 and fwc = 61100 and ?chg1.0 = 0,
      THEN conjunct2, THEN conjunct2, THEN conjunct1, rule_format, OF c]
  have d: "selectInputs 50000 ?one = Inr (100000, ?one)
      \<and> calculateFees stdExternals ?one 100000 = Inr (48700, 61100)
      \<and> \<not> (100000 :: Amount) - 48700 <s 500
      \<and> (51300 :: Amount, 0 :: Amount)
           = (if (500 :: Amount) \<le>s 100000 - 50000 \<and> (500 :: Amount) \<le>s 50000 - 61100
              then (50000 - 61100, 100000 - 50000) else (100000 - 48700, 0))
      \<and> quo (51300 + 0) 5 <s 100000 - (51300 + 0)"
    by code_simp
  note td = fee_sanity_cap [where ext = stdExternals and feeRate = 100000 and amt = 50000
      and dustLimit = 500 and coins = ?one and ?tot2.0 = 100000
      and ?sel2.0 = ?one and ?fnc2.0 = 48700 and ?fwc2.0 = 61100 and ?out2.0 = 51300
      and ?chg2.0 = 0,
      THEN conjunct2, THEN conjunct2, THEN conjunct2, rule_format, OF d]
  show ?thesis
    by (intro conjI a a0 b b0 ta [THEN conjunct1] ta [THEN conjunct2, rule_format, OF a0]
        tb [THEN conjunct1] tb [THEN conjunct2, rule_format, OF b0] c tc d td)
qed

text \<open>
  In the subtract-fees mode the formula of the target amount does not hold: one coin
  of 5000 against a request of 600 at a dust limit of 500 succeeds with a single
  output of \<open>5000 - 123 = 4877\<close> and a fee of 123, although the total selected value
  less target less change is 4400, above a fifth of target plus change, 120.
\<close>

theorem fee_cap_on_target_counterexample:
  "CoinSelectSubtractFees stdExternals 253 600 500 [p2wkhCoin 5000]
      = Inr ([p2wkhCoin 5000], 4877, 0)
   \<and> quo (600 + 0) 5 <s totalValue [p2wkhCoin 5000] - 600 - 0"
  by code_simp

text \<open>
  C3, as the code has it. A successful selection pays the fee the estimator requires.
  In \<open>CoinSelect\<close> the fee (total selected value less target less change) is exactly
  the with-change fee estimate when the returned change amount is not 0, and at least
  the no-change fee estimate when it is 0. In \<open>CoinSelectSubtractFees\<close> the fee (total
  selected value less primary output less change) is exactly the with-change fee
  estimate when both the leftover (total selected value less requested amount) and
  the reduced output (requested amount less with-change fee) are at or above the dust
  limit, and exactly the no-change fee estimate otherwise. In both modes the fee, as
  the code computes it, is strictly positive whenever both fee estimates are.
\<close>

theorem fee_at_least_required:
  "(CoinSelect ext feeRate amt dustLimit coins = Some (Inr (sel, chg)) \<longrightarrow>
      (\<exists>fnc fwc. calculateFees ext sel feeRate = Inr (fnc, fwc)
         \<and> (chg \<noteq> 0 \<longrightarrow> totalValue sel - (amt + chg) = fwc)
         \<and> (chg = 0 \<longrightarrow> fnc \<le>s totalValue sel - (amt + chg))
         \<and> (0 <s fnc \<and> 0 <s fwc \<longrightarrow> 0 <s totalValue sel - (amt + chg))))
   \<and> (CoinSelectSubtractFees ext feeRate amt dustLimit coins = Inr (sel', out, chg') \<longrightarrow>
      (\<exists>fnc fwc. calculateFees ext sel' feeRate = Inr (fnc, fwc)
         \<and> totalValue sel' - (out + chg') =
             (if dustLimit \<le>s totalValue sel' - amt \<and> dustLimit \<le>s amt - fwc
              then fwc else fnc)
         \<and> (0 <s fnc \<and> 0 <s fwc \<longrightarrow> 0 <s totalValue sel' - (out + chg'))))"
proof (intro conjI impI)
  assume a: "CoinSelect ext feeRate amt dustLimit coins = Some (Inr (sel, chg))"
  from CoinSelect_Inr [OF a] obtain fnc fwc where p:
    "calculateFees ext sel feeRate = Inr (fnc, fwc)"
    "\<not> totalValue sel - amt <s fnc"
    "chg = (let c = (if fwc <s totalValue sel - amt then totalValue sel - amt - fwc else 0)
            in if c <s dustLimit then 0 else c)"
    by blast
  let ?fee = "totalValue sel - (amt + chg)"
  have w: "chg \<noteq> 0 \<longrightarrow> ?fee = fwc"
  proof
    assume "chg \<noteq> 0"
    with p(3) have "chg = totalValue sel - amt - fwc"
      by (simp add: Let_def split: if_splits)
    then show "?fee = fwc" by simp
  qed
  have n: "chg = 0 \<longrightarrow> fnc \<le>s ?fee"
    using p(2) by (simp add: signed.not_less)
  have pos: "0 <s fnc \<and> 0 <s fwc \<longrightarrow> 0 <s ?fee"
  proof (cases "chg = 0")
    case True
    with n have "fnc \<le>s ?fee" by simp
    then show ?thesis by (auto simp: word_sless_alt word_sle_eq)
  next
    case False
    with w show ?thesis by simp
  qed
  from p(1) w n pos
  show "\<exists>fnc fwc. calculateFees ext sel feeRate = Inr (fnc, fwc)
         \<and> (chg \<noteq> 0 \<longrightarrow> ?fee = fwc) \<and> (chg = 0 \<longrightarrow> fnc \<le>s ?fee)
         \<and> (0 <s fnc \<and> 0 <s fwc \<longrightarrow> 0 <s ?fee)"
    by blast
next
  assume b: "CoinSelectSubtractFees ext feeRate amt dustLimit coins = Inr (sel', out, chg')"
  from CoinSelectSubtractFees_Inr [OF b] obtain tot fnc fwc where q:
    "selectInputs amt coins = Inr (tot, sel')"
    "calculateFees ext sel' feeRate = Inr (fnc, fwc)"
    "if dustLimit \<le>s tot - amt \<and> dustLimit \<le>s amt - fwc
     then out = amt - fwc \<and> chg' = tot - amt else out = tot - fnc \<and> chg' = 0"
    by blast
  have t: "tot = totalValue sel'" by (rule selectInputs_total [OF q(1)])
  let ?fee = "totalValue sel' - (out + chg')"
  have e: "?fee = (if dustLimit \<le>s totalValue sel' - amt \<and> dustLimit \<le>s amt - fwc
                   then fwc else fnc)"
    using q(3) unfolding t by (simp split: if_splits)
  then have "0 <s fnc \<and> 0 <s fwc \<longrightarrow> 0 <s ?fee"
    by (simp split: if_splits)
  with q(2) e
  show "\<exists>fnc fwc. calculateFees ext sel' feeRate = Inr (fnc, fwc)
         \<and> ?fee = (if dustLimit \<le>s totalValue sel' - amt \<and> dustLimit \<le>s amt - fwc
                    then fwc else fnc)
         \<and> (0 <s fnc \<and> 0 <s fwc \<longrightarrow> 0 <s ?fee)"
    by blast
qed

text \<open>
  At a fee rate of 0 both estimates are 0, and a coin of exactly the target amount is
  selected with no change: the total selected value equals the total output value.
\<close>

theorem positive_fee_counterexample:
  "CoinSelect stdExternals 0 100000 0 [p2wkhCoin 100000] = Some (Inr ([p2wkhCoin 100000], 0))
   \<and> \<not> (100000 + 0 <s totalValue [p2wkhCoin 100000])"
  by code_simp

theorem fee_at_least_required_witness:
  "CoinSelect stdExternals 253 120000 500 [p2wkhCoin 100000, p2wkhCoin 50000]
      = Some (Inr ([p2wkhCoin 100000, p2wkhCoin 50000], 29777))
   \<and> CoinSelectSubtractFees stdExternals 253 149900 500 [p2wkhCoin 150000]
      = Inr ([p2wkhCoin 150000], 149877, 0)
   \<and> calculateFees stdExternals [p2wkhCoin 100000, p2wkhCoin 50000] 253 = Inr (192, 223)
   \<and> calculateFees stdExternals [p2wkhCoin 150000] 253 = Inr (123, 154)
   \<and> totalValue [p2wkhCoin 100000, p2wkhCoin 50000] - (120000 + 29777) = 223
   \<and> 0 <s totalValue [p2wkhCoin 100000, p2wkhCoin 50000] - (120000 + 29777)
   \<and> totalValue [p2wkhCoin 150000] - (149877 + 0) = 123
   \<and> 0 <s totalValue [p2wkhCoin 150000] - (149877 + 0)"
proof -
  let ?two = "[p2wkhCoin 100000, p2wkhCoin 50000]"
  let ?one = "[p2wkhCoin 150000]"
  have a: "CoinSelect stdExternals 253 120000 500 ?two = Some (Inr (?two, 29777))"
    by code_simp
  have b: "CoinSelectSubtractFees stdExternals 253 149900 500 ?one = Inr (?one, 149877, 0)"
    by code_simp
  have fa: "calculateFees stdExternals ?two 253 = Inr (192, 223)" by code_simp
  have fb: "calculateFees stdExternals ?one 253 = Inr (123, 154)" by code_simp
  have nz: "(29777 :: Amount) \<noteq> 0" by simp
  have pa: "(0 :: Amount) <s 192 \<and> (0 :: Amount) <s 223" by code_simp
  have pb: "(0 :: Amount) <s 123 \<and> (0 :: Amount) <s 154" by code_simp
  have nb: "\<not> ((500 :: Amount) \<le>s totalValue ?one - 149900 \<and> (500 :: Amount) \<le>s 149900 - 154)"
    by code_simp
  from fee_at_least_required [where ext = stdExternals and feeRate = 253 and amt = 120000
      and dustLimit = 500 and coins = ?two and sel = ?two and chg = 29777,
      THEN conjunct1, rule_format, OF a]
  obtain fnc fwc where ea: "calculateFees stdExternals ?two 253 = Inr (fnc, fwc)"
    "29777 \<noteq> (0 :: Amount) \<longrightarrow> totalValue ?two - (120000 + 29777) = fwc"
    "0 <s fnc \<and> 0 <s fwc \<longrightarrow> 0 <s totalValue ?two - (120000 + 29777)"
    by blast
  from ea(1) fa have va: "fnc = 192" "fwc = 223" by simp_all
  from ea(2) nz va have ca: "totalValue ?two - (120000 + 29777) = 223" by simp
  from ea(3) pa va have cpa: "0 <s totalValue ?two - (120000 + 29777)" by simp
  from fee_at_least_required [where ext = stdExternals and feeRate = 253 and amt = 149900
      and dustLimit = 500 and coins = ?one and sel' = ?one and out = 149877 and chg' = 0,
      THEN conjunct2, rule_format, OF b]
  obtain fnc' fwc' where eb: "calculateFees stdExternals ?one 253 = Inr (fnc', fwc')"
    "totalValue ?one - (149877 + 0) =
       (if (500 :: Amount) \<le>s totalValue ?one - 149900 \<and> (500 :: Amount) \<le>s 149900 - fwc'
        then fwc' else fnc')"
    "0 <s fnc' \<and> 0 <s fwc' \<longrightarrow> 0 <s totalValue ?one - (149877 + 0)"
    by blast
  from eb(1) fb have vb: "fnc' = 123" "fwc' = 154" by simp_all
  from eb(2) nb have cb: "totalValue ?one - (149877 + 0) = 123" unfolding vb by simp
  from eb(3) pb have cpb: "0 <s totalValue ?one - (149877 + 0)" unfolding vb by simp
  show ?thesis by (intro conjI a b fa fb ca cpa cb cpb)
qed

text \<open>
  C5, as the code has it. For every successful \<open>CoinSelectSubtractFees\<close> call: if both
  the reduced primary output (requested amount less the with-change fee) and the
  leftover (total selected value less requested amount) are at or above the dust
  limit, the primary output is the requested amount less the with-change fee and the
  change amount is the leftover; otherwise the change amount is 0 and the single
  primary output is the total selected value less the no-change fee. So a change
  output (a change amount other than 0) is created exactly when both are at or above
  the dust limit and the leftover is not 0; for a strictly positive dust limit,
  exactly when both are at or above the dust limit.
\<close>

theorem subtract_fees_change_decision:
  assumes "CoinSelectSubtractFees ext feeRate amt dustLimit coins = Inr (sel, out, chg)"
  shows "\<exists>fnc fwc. calculateFees ext sel feeRate = Inr (fnc, fwc)
           \<and> (if dustLimit \<le>s amt - fwc \<and> dustLimit \<le>s totalValue sel - amt
               then out = amt - fwc \<and> chg = totalValue sel - amt
               else out = totalValue sel - fnc \<and> chg = 0)
           \<and> (chg \<noteq> 0 \<longleftrightarrow>
                 dustLimit \<le>s amt - fwc \<and> dustLimit \<le>s totalValue sel - amt
                 \<and> totalValue sel - amt \<noteq> 0)
           \<and> (0 <s dustLimit \<longrightarrow>
                 (chg \<noteq> 0 \<longleftrightarrow>
                    dustLimit \<le>s amt - fwc \<and> dustLimit \<le>s totalValue sel - amt))"
proof -
  from CoinSelectSubtractFees_Inr [OF assms] obtain tot fnc fwc where q:
    "selectInputs amt coins = Inr (tot, sel)"
    "calculateFees ext sel feeRate = Inr (fnc, fwc)"
    "if dustLimit \<le>s tot - amt \<and> dustLimit \<le>s amt - fwc
     then out = amt - fwc \<and> chg = tot - amt else out = tot - fnc \<and> chg = 0"
    by blast
  have t: "tot = totalValue sel" by (rule selectInputs_total [OF q(1)])
  let ?both = "dustLimit \<le>s amt - fwc \<and> dustLimit \<le>s totalValue sel - amt"
  from q(3) have alloc: "if ?both
               then out = amt - fwc \<and> chg = totalValue sel - amt
               else out = totalValue sel - fnc \<and> chg = 0"
    unfolding t by (simp split: if_splits)
  have created: "chg \<noteq> 0 \<longleftrightarrow> ?both \<and> totalValue sel - amt \<noteq> 0"
  proof (cases ?both)
    case True
    with alloc have "chg = totalValue sel - amt" by simp
    with True show ?thesis by simp
  next
    case False
    with alloc have "chg = 0" by simp
    with False show ?thesis by blast
  qed
  have positive: "0 <s dustLimit \<longrightarrow> (chg \<noteq> 0 \<longleftrightarrow> ?both)"
  proof
    assume d: "0 <s dustLimit"
    have "totalValue sel - amt \<noteq> 0" if "dustLimit \<le>s totalValue sel - amt"
    proof
      assume "totalValue sel - amt = 0"
      with that have "dustLimit \<le>s 0" by simp
      with d show False by (simp add: word_sless_alt word_sle_eq)
    qed
    with created show "chg \<noteq> 0 \<longleftrightarrow> ?both" by blast
  qed
  from q(2) alloc created positive show ?thesis by blast
qed

text \<open>
  Two instances. Coins of 100000 and 50000 against a request of 120000 at a dust limit
  of 500: both amounts clear the limit and the leftover of 30000 is the change. One
  coin of 100000 against a request of 100000 at a dust limit of 0: both amounts clear
  the limit, the output is \<open>100000 - 154\<close>, and the leftover, hence the change, is 0.
\<close>

theorem subtract_fees_change_decision_witness:
  "CoinSelectSubtractFees stdExternals 253 120000 500 [p2wkhCoin 100000, p2wkhCoin 50000]
      = Inr ([p2wkhCoin 100000, p2wkhCoin 50000], 119777, 30000)
   \<and> (0 :: Amount) <s 500
   \<and> (\<exists>fnc fwc. calculateFees stdExternals [p2wkhCoin 100000, p2wkhCoin 50000] 253
                   = Inr (fnc, fwc)
         \<and> (if 500 \<le>s 120000 - fwc
                \<and> 500 \<le>s totalValue [p2wkhCoin 100000, p2wkhCoin 50000] - 120000
             then (119777 :: Amount) = 120000 - fwc
                \<and> (30000 :: Amount) = totalValue [p2wkhCoin 100000, p2wkhCoin 50000] - 120000
             else (119777 :: Amount) = totalValue [p2wkhCoin 100000, p2wkhCoin 50000] - fnc
                \<and> (30000 :: Amount) = 0)
         \<and> ((30000 :: Amount) \<noteq> 0 \<longleftrightarrow>
               500 \<le>s 120000 - fwc
               \<and> 500 \<le>s totalValue [p2wkhCoin 100000, p2wkhCoin 50000] - 120000
               \<and> totalValue [p2wkhCoin 100000, p2wkhCoin 50000] - 120000 \<noteq> 0)
         \<and> ((0 :: Amount) <s 500 \<longrightarrow>
               ((30000 :: Amount) \<noteq> 0 \<longleftrightarrow>
                  500 \<le>s 120000 - fwc
                  \<and> 500 \<le>s totalValue [p2wkhCoin 100000, p2wkhCoin 50000] - 120000)))
   \<and> (30000 :: Amount) \<noteq> 0
   \<and> (500 :: Amount) \<le>s 120000 - 223
   \<and> 500 \<le>s totalValue [p2wkhCoin 100000, p2wkhCoin 50000] - 120000
   \<and> CoinSelectSubtractFees stdExternals 253 100000 0 [p2wkhCoin 100000]
      = Inr ([p2wkhCoin 100000], 99846, 0)
   \<and> (\<exists>fnc fwc. calculateFees stdExternals [p2wkhCoin 100000] 253 = Inr (fnc, fwc)
         \<and> (if 0 \<le>s 100000 - fwc \<and> 0 \<le>s totalValue [p2wkhCoin 100000] - 100000
             then (99846 :: Amount) = 100000 - fwc
                \<and> (0 :: Amount) = totalValue [p2wkhCoin 100000] - 100000
             else (99846 :: Amount) = totalValue [p2wkhCoin 100000] - fnc
                \<and> (0 :: Amount) = 0)
         \<and> ((0 :: Amount) \<noteq> 0 \<longleftrightarrow>
               0 \<le>s 100000 - fwc \<and> 0 \<le>s totalValue [p2wkhCoin 100000] - 100000
               \<and> totalValue [p2wkhCoin 100000] - 100000 \<noteq> 0)
         \<and> ((0 :: Amount) <s 0 \<longrightarrow>
               ((0 :: Amount) \<noteq> 0 \<longleftrightarrow>
                  0 \<le>s 100000 - fwc \<and> 0 \<le>s totalValue [p2wkhCoin 100000] - 100000)))"
proof -
  have h: "CoinSelectSubtractFees stdExternals 253 120000 500
             [p2wkhCoin 100000, p2wkhCoin 50000]
           = Inr ([p2wkhCoin 100000, p2wkhCoin 50000], 119777, 30000)"
    by code_simp
  have d: "(0 :: Amount) <s 500" by code_simp
  have n: "(30000 :: Amount) \<noteq> 0" by simp
  have b1: "(500 :: Amount) \<le>s 120000 - 223" by code_simp
  have b2: "500 \<le>s totalValue [p2wkhCoin 100000, p2wkhCoin 50000] - 120000" by code_simp
  have h0: "CoinSelectSubtractFees stdExternals 253 100000 0 [p2wkhCoin 100000]
           = Inr ([p2wkhCoin 100000], 99846, 0)"
    by code_simp
  show ?thesis
    by (intro conjI h d n b1 b2 h0 subtract_fees_change_decision [OF h]
        subtract_fees_change_decision [OF h0])
qed

text \<open>
  One coin of 150000 against a request of 149900: the leftover of 100 is below the
  dust limit of 500, no change output is created, and the single output is
  \<open>150000 - 123 = 149877\<close>, not the requested amount less the no-change fee,
  \<open>149900 - 123\<close>.
\<close>

theorem subtract_fees_single_output_counterexample:
  "CoinSelectSubtractFees stdExternals 253 149900 500 [p2wkhCoin 150000]
      = Inr ([p2wkhCoin 150000], 149877, 0)
   \<and> calculateFees stdExternals [p2wkhCoin 150000] 253 = Inr (123, 154)
   \<and> (149877 :: Amount) \<noteq> 149900 - 123"
  by code_simp

text \<open>
  C8, as the code has it. Selection never reorders candidates: for every successful
  \<open>CoinSelect\<close> call the selected coins are a prefix of the candidate sequence in the
  given order, namely the shortest prefix of at least one coin whose accumulated value
  is at least the final working target (the value of \<open>amtNeeded\<close> in the pass that
  returns).
\<close>

theorem selection_is_shortest_prefix:
  assumes "CoinSelect ext feeRate amt dustLimit coins = Some (Inr (sel, chg))"
  shows "\<exists>j need k.
           amtNeededAfter j ext feeRate amt dustLimit coins amt = Some need
           \<and> coinSelectPass ext feeRate amt dustLimit coins need = Return (Inr (sel, chg))
           \<and> 0 < k \<and> k \<le> length coins \<and> sel = take k coins
           \<and> need \<le>s totalValue (take k coins)
           \<and> (\<forall>i. 0 < i \<and> i < k \<longrightarrow> totalValue (take i coins) <s need)"
proof -
  from CoinSelect_Inr [OF assms] obtain j need where p:
    "amtNeededAfter j ext feeRate amt dustLimit coins amt = Some need"
    "coinSelectPass ext feeRate amt dustLimit coins need = Return (Inr (sel, chg))"
    "selectInputs need coins = Inr (totalValue sel, sel)"
    by blast
  from selectInputs_Inr [OF p(3)] obtain k where k:
    "0 < k" "k \<le> length coins" "sel = take k coins" "need \<le>s totalValue sel"
    "\<forall>i. 0 < i \<and> i < k \<longrightarrow> totalValue (take i coins) <s need"
    by blast
  from k(3,4) have "need \<le>s totalValue (take k coins)" by simp
  with p(1,2) k(1,2,3,5) show ?thesis by blast
qed

theorem selection_is_shortest_prefix_witness:
  "CoinSelect stdExternals 253 120000 500 [p2wkhCoin 100000, p2wkhCoin 50000]
      = Some (Inr ([p2wkhCoin 100000, p2wkhCoin 50000], 29777))
   \<and> (\<exists>j need k.
         amtNeededAfter j stdExternals 253 120000 500 [p2wkhCoin 100000, p2wkhCoin 50000] 120000
           = Some need
         \<and> coinSelectPass stdExternals 253 120000 500 [p2wkhCoin 100000, p2wkhCoin 50000] need
           = Return (Inr ([p2wkhCoin 100000, p2wkhCoin 50000], 29777))
         \<and> 0 < k \<and> k \<le> length [p2wkhCoin 100000, p2wkhCoin 50000]
         \<and> [p2wkhCoin 100000, p2wkhCoin 50000] = take k [p2wkhCoin 100000, p2wkhCoin 50000]
         \<and> need \<le>s totalValue (take k [p2wkhCoin 100000, p2wkhCoin 50000])
         \<and> (\<forall>i. 0 < i \<and> i < k \<longrightarrow>
               totalValue (take i [p2wkhCoin 100000, p2wkhCoin 50000]) <s need))"
proof -
  have h: "CoinSelect stdExternals 253 120000 500 [p2wkhCoin 100000, p2wkhCoin 50000]
      = Some (Inr ([p2wkhCoin 100000, p2wkhCoin 50000], 29777))"
    by code_simp
  show ?thesis
    by (intro conjI h selection_is_shortest_prefix [OF h])
qed

text \<open>
  With a target of 0 the first pass returns, so the final working target is 0. The
  empty prefix already has an accumulated value of at least 0, and it is shorter than
  the one coin the call selects.
\<close>

theorem shortest_prefix_counterexample:
  "CoinSelect stdExternals 253 0 0 [p2wkhCoin 1000] = Some (Inr ([p2wkhCoin 1000], 846))
   \<and> coinSelectPass stdExternals 253 0 0 [p2wkhCoin 1000] 0
        = Return (Inr ([p2wkhCoin 1000], 846))
   \<and> 0 \<le>s totalValue (take 0 [p2wkhCoin 1000])
   \<and> length (take 0 [p2wkhCoin 1000]) < length [p2wkhCoin 1000]"
  by code_simp

text \<open>
  C4. Whenever the candidate list is exhausted before the accumulated value reaches the
  working target (no accumulated value, after one coin or more, is at least the
  target), selection fails with \<open>ErrInsufficientFunds\<close>. Its message reports the
  working target as the amount needed and the total value of all candidates as the
  amount available. (The struct stores the target in the field it calls
  \<open>amountAvailable\<close> and the total in \<open>amountSelected\<close>; \<open>Error\<close> prints the first
  after "need" and the second after "only have".) \<open>CoinSelect\<close> returns this error
  from the pass whose working target cannot be met, and \<open>CoinSelectSubtractFees\<close> from
  its single selection.
\<close>

theorem insufficient_funds_reported:
  assumes "\<forall>k. 0 < k \<and> k \<le> length coins \<longrightarrow> totalValue (take k coins) <s amtNeeded"
  shows "selectInputs amtNeeded coins = Inl (ErrInsufficientFunds amtNeeded (totalValue coins))
     \<and> available (ErrInsufficientFunds amtNeeded (totalValue coins)) = totalValue coins
     \<and> needed (ErrInsufficientFunds amtNeeded (totalValue coins)) = amtNeeded
     \<and> (amtNeededAfter j ext feeRate amt dustLimit coins amt = Some amtNeeded \<longrightarrow>
          CoinSelect ext feeRate amt dustLimit coins
            = Some (Inl (ErrInsufficientFunds amtNeeded (totalValue coins))))
     \<and> CoinSelectSubtractFees ext feeRate amtNeeded dustLimit coins
          = Inl (ErrInsufficientFunds amtNeeded (totalValue coins))"
proof (intro conjI impI)
  show s: "selectInputs amtNeeded coins = Inl (ErrInsufficientFunds amtNeeded (totalValue coins))"
    by (rule selectInputs_exhausted [OF assms])
  show "available (ErrInsufficientFunds amtNeeded (totalValue coins)) = totalValue coins"
    by (simp add: available_def Error_def)
  show "needed (ErrInsufficientFunds amtNeeded (totalValue coins)) = amtNeeded"
    by (simp add: needed_def Error_def)
  show "CoinSelectSubtractFees ext feeRate amtNeeded dustLimit coins
          = Inl (ErrInsufficientFunds amtNeeded (totalValue coins))"
    by (rule CoinSelectSubtractFees_select_fail [OF s])
  assume k: "amtNeededAfter j ext feeRate amt dustLimit coins amt = Some amtNeeded"
  have "coinSelectPass ext feeRate amt dustLimit coins amtNeeded
          = Return (Inl (ErrInsufficientFunds amtNeeded (totalValue coins)))"
    by (rule coinSelectPass_select_fail [OF s])
  from coinSelectLoop_Return [OF k this]
  show "CoinSelect ext feeRate amt dustLimit coins
            = Some (Inl (ErrInsufficientFunds amtNeeded (totalValue coins)))"
    by (simp add: CoinSelect_def)
qed

text \<open>
  Scenario B of the spec: candidates of 20000 and 30000, 50000 in total, against a
  target of 120000.
\<close>

theorem insufficient_funds_reported_witness:
  "selectInputs 120000 [p2wkhCoin 20000, p2wkhCoin 30000]
      = Inl (ErrInsufficientFunds 120000 50000)
   \<and> available (ErrInsufficientFunds 120000 50000) = 50000
   \<and> needed (ErrInsufficientFunds 120000 50000) = 120000
   \<and> amtNeededAfter 0 stdExternals 253 120000 500 [p2wkhCoin 20000, p2wkhCoin 30000] 120000
        = Some 120000
   \<and> CoinSelect stdExternals 253 120000 500 [p2wkhCoin 20000, p2wkhCoin 30000]
        = Some (Inl (ErrInsufficientFunds 120000 50000))
   \<and> CoinSelectSubtractFees stdExternals 253 120000 500 [p2wkhCoin 20000, p2wkhCoin 30000]
        = Inl (ErrInsufficientFunds 120000 50000)"
proof -
  let ?coins = "[p2wkhCoin 20000, p2wkhCoin 30000]"
  have h: "\<forall>k. 0 < k \<and> k \<le> length ?coins \<longrightarrow> totalValue (take k ?coins) <s 120000"
  proof (intro allI impI)
    fix k :: nat
    assume "0 < k \<and> k \<le> length ?coins"
    then have "k = 1 \<or> k = 2" by auto
    moreover have "totalValue (take 1 ?coins) <s 120000" by code_simp
    moreover have "totalValue (take 2 ?coins) <s 120000" by code_simp
    ultimately show "totalValue (take k ?coins) <s 120000" by blast
  qed
  have t: "totalValue ?coins = 50000" by code_simp
  have a: "amtNeededAfter 0 stdExternals 253 120000 500 ?coins 120000 = Some 120000"
    by simp
  note r = insufficient_funds_reported [OF h, where j = 0 and ext = stdExternals
      and feeRate = 253 and amt = 120000 and dustLimit = 500, unfolded t]
  show ?thesis
    by (intro conjI a r [THEN conjunct1] r [THEN conjunct2, THEN conjunct1]
        r [THEN conjunct2, THEN conjunct2, THEN conjunct1]
        r [THEN conjunct2, THEN conjunct2, THEN conjunct2, THEN conjunct1, rule_format, OF a]
        r [THEN conjunct2, THEN conjunct2, THEN conjunct2, THEN conjunct2])
qed




text \<open>
  C2. In every state the lease manager can reach, and at every time, an outpoint has
  at most one live lease: \<open>ListLeases\<close> never reports two leases on one outpoint, so
  two distinct lease IDs never hold a live lease on the same outpoint at the same
  time. While a lease is live, a \<open>Lock\<close> call on its outpoint with any other lease ID
  fails with \<open>LeaseConflict\<close>, naming the holder.
\<close>

theorem lease_mutual_exclusion:
  "length (liveLeasesOn (tableAfter calls) now op) \<le> 1
   \<and> (l1 \<in> set (ListLeases (tableAfter calls) now)
        \<and> l2 \<in> set (ListLeases (tableAfter calls) now)
        \<and> outpoint l1 = outpoint l2 \<longrightarrow> l1 = l2)
   \<and> (l \<in> set (ListLeases (tableAfter calls) now) \<and> leaseID l \<noteq> lid \<longrightarrow>
        Lock (tableAfter calls) now lid (outpoint l) ttl
          = Inl (LeaseConflict (outpoint l) (leaseID l)))"
proof (intro conjI impI)
  let ?tbl = "tableAfter calls"
  have d: "distinct (map fst ?tbl)" by (rule distinct_tableAfter)
  show "length (liveLeasesOn ?tbl now op) \<le> 1"
    by (rule liveLeasesOn_at_most_one [OF d])
  {
    assume a: "l1 \<in> set (ListLeases ?tbl now) \<and> l2 \<in> set (ListLeases ?tbl now)
        \<and> outpoint l1 = outpoint l2"
    then have m1: "(outpoint l1, (leaseID l1, expiresAt l1)) \<in> set ?tbl"
      and m2: "(outpoint l1, (leaseID l2, expiresAt l2)) \<in> set ?tbl"
      by (auto simp: ListLeases_mem)
    from eq_key_imp_eq_value [OF d m1 m2] a show "l1 = l2" by simp
  }
  {
    assume b: "l \<in> set (ListLeases ?tbl now) \<and> leaseID l \<noteq> lid"
    then have m: "(outpoint l, (leaseID l, expiresAt l)) \<in> set ?tbl" and live: "now < expiresAt l"
      by (simp_all add: ListLeases_mem)
    from d m have "map_of ?tbl (outpoint l) = Some (leaseID l, expiresAt l)" by simp
    with b live show "Lock ?tbl now lid (outpoint l) ttl
          = Inl (LeaseConflict (outpoint l) (leaseID l))"
      unfolding Lock_def by simp
  }
qed

text \<open>
  Scenario C of the spec: outpoint O is locked by lease ID A at time 0 for 60 seconds.
  At time 30 a lock by B fails with \<open>LeaseConflict\<close>; at time 61 it succeeds.
\<close>

theorem lease_mutual_exclusion_witness:
  "length (liveLeasesOn
       (tableAfter [(0, CallLock (replicate 32 1) \<lparr> Hash = replicate 32 0, Index = 0 \<rparr> 60)])
       30 \<lparr> Hash = replicate 32 0, Index = 0 \<rparr>) \<le> 1
   \<and> \<lparr> leaseID = replicate 32 1, outpoint = \<lparr> Hash = replicate 32 0, Index = 0 \<rparr>,
        expiresAt = 60 \<rparr>
       \<in> set (ListLeases
           (tableAfter [(0, CallLock (replicate 32 1) \<lparr> Hash = replicate 32 0, Index = 0 \<rparr> 60)])
           30)
   \<and> replicate 32 (1 :: 8 word) \<noteq> replicate 32 2
   \<and> Lock (tableAfter [(0, CallLock (replicate 32 1) \<lparr> Hash = replicate 32 0, Index = 0 \<rparr> 60)])
        30 (replicate 32 2) \<lparr> Hash = replicate 32 0, Index = 0 \<rparr> 60
       = Inl (LeaseConflict \<lparr> Hash = replicate 32 0, Index = 0 \<rparr> (replicate 32 1))
   \<and> Lock (tableAfter [(0, CallLock (replicate 32 1) \<lparr> Hash = replicate 32 0, Index = 0 \<rparr> 60)])
        61 (replicate 32 2) \<lparr> Hash = replicate 32 0, Index = 0 \<rparr> 60
       = Inr (121, [(\<lparr> Hash = replicate 32 0, Index = 0 \<rparr>, (replicate 32 2, 121))])"
proof -
  let ?O = "\<lparr> Hash = replicate 32 (0 :: 8 word), Index = 0 \<rparr>"
  let ?A = "replicate 32 (1 :: 8 word)"
  let ?B = "replicate 32 (2 :: 8 word)"
  let ?calls = "[(0 :: nat, CallLock ?A ?O 60)]"
  let ?l = "\<lparr> leaseID = ?A, outpoint = ?O, expiresAt = 60 \<rparr>"
  have m: "?l \<in> set (ListLeases (tableAfter ?calls) 30)" by code_simp
  have n: "?A \<noteq> ?B" by code_simp
  have s: "Lock (tableAfter ?calls) 61 ?B ?O 60 = Inr (121, [(?O, (?B, 121))])"
    by code_simp
  note t = lease_mutual_exclusion [where calls = ?calls and now = 30 and op = ?O
      and l = ?l and ?l1.0 = ?l and ?l2.0 = ?l and lid = ?B and ttl = 60]
  have c: "Lock (tableAfter ?calls) 30 ?B ?O 60 = Inl (LeaseConflict ?O ?A)"
    using t [THEN conjunct2, THEN conjunct2, rule_format, OF conjI [OF m]] n by simp
  show ?thesis
    by (intro conjI t [THEN conjunct1] m n c s)
qed

text \<open>
  C9. Calling \<open>Lock\<close> a second time with the same lease ID, outpoint and (positive)
  ttl, at the same or a later time, extends the lease and does not create a second
  one: the call succeeds, the table has as many entries as after the first call,
  exactly one lease on the outpoint is live, with the new expiry, and at every time
  at which the lease of the first call is still live \<open>ListLeases\<close> reports as many
  leases as it did after the first call.
\<close>

theorem lock_same_id_extends:
  assumes "Lock (tableAfter calls) now1 lid op ttl = Inr (e1, tbl1)"
    and "now1 \<le> now2" and "0 < ttl"
  shows "\<exists>tbl2. Lock tbl1 now2 lid op ttl = Inr (now2 + ttl, tbl2)
           \<and> e1 \<le> now2 + ttl
           \<and> length tbl2 = length tbl1
           \<and> liveLeasesOn tbl2 now2 op
               = [\<lparr> leaseID = lid, outpoint = op, expiresAt = now2 + ttl \<rparr>]
           \<and> (\<forall>t. t < e1 \<longrightarrow> length (ListLeases tbl2 t) = length (ListLeases tbl1 t))"
proof -
  let ?tbl = "tableAfter calls"
  let ?e2 = "now2 + ttl"
  have e1: "e1 = now1 + ttl" and t1: "tbl1 = AList.update op (lid, e1) ?tbl"
    using Lock_Inr [OF assms(1)] by simp_all
  have d1: "distinct (map fst tbl1)"
    by (rule distinct_Lock [OF distinct_tableAfter assms(1)])
  have m1: "map_of tbl1 op = Some (lid, e1)"
    unfolding t1 by (simp add: update_conv')
  then have "op \<in> fst ` set tbl1"
    by (metis domI dom_map_of_conv_image_fst)
  from update_in_place [OF this d1, of "(lid, ?e2)"] obtain xs v ys where s:
    "tbl1 = xs @ (op, v) # ys" "op \<notin> fst ` set xs" "op \<notin> fst ` set ys"
    "AList.update op (lid, ?e2) tbl1 = xs @ (op, (lid, ?e2)) # ys"
    by blast
  from m1 d1 s(1) have v: "v = (lid, e1)"
    by (metis eq_key_imp_eq_value in_set_conv_decomp map_of_eq_Some_iff)
  let ?tbl2 = "xs @ (op, (lid, ?e2)) # ys"
  have l: "Lock tbl1 now2 lid op ttl = Inr (?e2, ?tbl2)"
    using Lock_same_holder [OF m1, of now2 ttl] s(4) by simp
  have le: "e1 \<le> ?e2" using e1 assms(2) by simp
  have len: "length ?tbl2 = length tbl1" unfolding s(1) by simp
  have live: "liveLeasesOn ?tbl2 now2 op
               = [\<lparr> leaseID = lid, outpoint = op, expiresAt = ?e2 \<rparr>]"
    using liveLeasesOn_absent [OF s(2)] liveLeasesOn_absent [OF s(3)] assms(3)
    by (simp add: liveLeasesOn_append liveLeasesOn_Cons)
  have cnt: "\<forall>t. t < e1 \<longrightarrow> length (ListLeases ?tbl2 t) = length (ListLeases tbl1 t)"
    unfolding s(1) v length_ListLeases_split using le by simp
  from l le len live cnt show ?thesis by blast
qed

text \<open>
  Outpoint O is locked by A at time 0 for 60 seconds and again at time 30: the lease
  now expires at 90 and is the only one listed, at time 30 as at time 59.
\<close>

theorem lock_same_id_extends_witness:
  "Lock (tableAfter []) 0 (replicate 32 1) \<lparr> Hash = replicate 32 0, Index = 0 \<rparr> 60
      = Inr (60, [(\<lparr> Hash = replicate 32 0, Index = 0 \<rparr>, (replicate 32 1, 60))])
   \<and> (0 :: nat) \<le> 30 \<and> (0 :: nat) < 60
   \<and> (\<exists>tbl2. Lock [(\<lparr> Hash = replicate 32 0, Index = 0 \<rparr>, (replicate 32 1, 60))] 30
                 (replicate 32 1) \<lparr> Hash = replicate 32 0, Index = 0 \<rparr> 60
               = Inr (30 + 60, tbl2)
         \<and> 60 \<le> (30 :: nat) + 60
         \<and> length tbl2
             = length [(\<lparr> Hash = replicate 32 (0 :: 8 word), Index = 0 :: 32 word \<rparr>,
                        (replicate 32 (1 :: 8 word), 60 :: nat))]
         \<and> liveLeasesOn tbl2 30 \<lparr> Hash = replicate 32 0, Index = 0 \<rparr>
             = [\<lparr> leaseID = replicate 32 1, outpoint = \<lparr> Hash = replicate 32 0, Index = 0 \<rparr>,
                  expiresAt = 30 + 60 \<rparr>]
         \<and> (\<forall>t. t < 60 \<longrightarrow> length (ListLeases tbl2 t)
               = length (ListLeases
                   [(\<lparr> Hash = replicate 32 0, Index = 0 \<rparr>, (replicate 32 1, 60))] t)))
   \<and> ListLeases [(\<lparr> Hash = replicate 32 0, Index = 0 \<rparr>, (replicate 32 1, 90))] 59
       = [\<lparr> leaseID = replicate 32 1, outpoint = \<lparr> Hash = replicate 32 0, Index = 0 \<rparr>,
            expiresAt = 90 \<rparr>]"
proof -
  let ?O = "\<lparr> Hash = replicate 32 (0 :: 8 word), Index = 0 :: 32 word \<rparr>"
  let ?A = "replicate 32 (1 :: 8 word)"
  have h: "Lock (tableAfter []) 0 ?A ?O 60 = Inr (60, [(?O, (?A, 60))])"
    by code_simp
  have a: "(0 :: nat) \<le> 30" by simp
  have b: "(0 :: nat) < 60" by simp
  have c: "ListLeases [(?O, (?A, 90))] 59
       = [\<lparr> leaseID = ?A, outpoint = ?O, expiresAt = 90 \<rparr>]"
    by code_simp
  show ?thesis
    by (intro conjI h a b c lock_same_id_extends [OF h a b])
qed

end
